theory Spec2Isabelle
  imports Complex_Main "HOL-Library.Product_Lexorder"
begin

section \<open>Python values, exceptions and dictionaries\<close>

text \<open>
  The retrieval service passes plain Python dictionaries around. A field value is a string,
  a number, a nested dictionary or a list. Python's \<open>int\<close> and \<open>float\<close> compare equal
  across the two types, so one numeric constructor covers both: a number is the rational
  it denotes. Where the code computes with floats (the fusion scores), the rounding of
  each operation is written out, see below.
\<close>

datatype pyval = Str string | Num rat | Dict "(string \<times> pyval) list" | Lst "pyval list"

text \<open>\<open>hash(v)\<close> raises \<open>TypeError\<close> on dictionaries and lists.\<close>

fun hashable :: "pyval \<Rightarrow> bool" where
  "hashable (Str s) = True"
| "hashable (Num x) = True"
| "hashable (Dict d) = False"
| "hashable (Lst xs) = False"

datatype exn =
    KeyError string
  | ZeroDivisionError
  | TypeError
  | OverflowError
  | NetworkXNoPath
  | NodeNotFound
  | PowerIterationFailedConvergence
  | BackendError string

text \<open>
  A Python \<open>dict\<close> keeps its keys in insertion order: an association list with distinct
  keys. \<open>d[k] = v\<close> replaces the value in place when the key is there and appends the
  key otherwise; \<open>d[k]\<close> raises \<open>KeyError\<close> when it is not there.
\<close>

fun dict_set :: "('k \<times> 'v) list \<Rightarrow> 'k \<Rightarrow> 'v \<Rightarrow> ('k \<times> 'v) list" where
  "dict_set [] k v = [(k, v)]"
| "dict_set ((k', v') # kvs) k v =
     (if k' = k then (k, v) # kvs else (k', v') # dict_set kvs k v)"

text \<open>\<open>d.update(other)\<close>\<close>

definition dict_update :: "('k \<times> 'v) list \<Rightarrow> ('k \<times> 'v) list \<Rightarrow> ('k \<times> 'v) list" where
  "dict_update d other = fold (\<lambda>kv d'. dict_set d' (fst kv) (snd kv)) other d"

definition dict_get :: "('k \<times> 'v) list \<Rightarrow> 'k \<Rightarrow> 'v \<Rightarrow> 'v" where
  "dict_get d k dflt = (case map_of d k of None \<Rightarrow> dflt | Some v \<Rightarrow> v)"

definition dict_index :: "(string \<times> 'v) list \<Rightarrow> string \<Rightarrow> exn + 'v" where
  "dict_index d k = (case map_of d k of None \<Rightarrow> Inl (KeyError k) | Some v \<Rightarrow> Inr v)"

type_synonym pydict = "(string \<times> pyval) list"

text \<open>
  Result records are shared objects: the lists handed to the fusion hold references, and
  the store maps each reference to the record it denotes.
\<close>

type_synonym ref = nat
type_synonym store = "ref \<Rightarrow> pydict"

text \<open>\<open>sorted(xs, key=f, reverse=True)\<close>: descending, equal keys in their original order.\<close>

definition py_sorted_desc :: "('a \<Rightarrow> rat) \<Rightarrow> 'a list \<Rightarrow> 'a list" where
  "py_sorted_desc f xs = sort_key (\<lambda>x. - f x) xs"

text \<open>\<open>xs[:k]\<close>: a negative bound counts from the end.\<close>

definition py_take :: "int \<Rightarrow> 'a list \<Rightarrow> 'a list" where
  "py_take k xs = (if 0 \<le> k then take (nat k) xs else take (length xs - nat (- k)) xs)"

section \<open>Double-precision arithmetic\<close>

text \<open>
  A Python \<open>float\<close> is an IEEE 754 binary64 number. A finite float is the rational it
  denotes (\<open>-0.0\<close> and \<open>0.0\<close>, which compare equal, are both 0); a running total may also
  be one of the two infinities. Every operation returns the float nearest to the exact
  result, ties going to the even significand.
\<close>

datatype pyfloat = Finite rat | PInf | NInf

text \<open>\<open>n.bit_length()\<close>, by recursion on the binary digits of a positive \<open>n\<close>.\<close>

fun num_bits :: "num \<Rightarrow> int" where
  "num_bits Num.One = 1"
| "num_bits (Num.Bit0 n) = 1 + num_bits n"
| "num_bits (Num.Bit1 n) = 1 + num_bits n"

definition bit_length :: "int \<Rightarrow> int" where
  "bit_length n = (if n \<le> 0 then 0 else num_bits (num_of_nat (nat n)))"

definition pow2 :: "int \<Rightarrow> rat" where
  "pow2 e = (if 0 \<le> e then 2 ^ nat e else 1 / 2 ^ nat (- e))"

definition round_half_even :: "rat \<Rightarrow> int" where
  "round_half_even x =
     (let f = \<lfloor>x\<rfloor>; r = x - of_int f
      in if r < 1 / 2 then f else if 1 / 2 < r then f + 1 else if even f then f else f + 1)"

text \<open>The exponent \<open>e\<close> with \<open>2 ^ e \<le> x < 2 ^ (e + 1)\<close>, for a positive \<open>x\<close>.\<close>

definition binade :: "rat \<Rightarrow> int" where
  "binade x = (if 1 \<le> x then bit_length \<lfloor>x\<rfloor> - 1 else - bit_length (\<lceil>1 / x\<rceil> - 1))"

text \<open>
  Rounding to 53 significant bits; below \<open>2 ^ (-1022)\<close> the spacing stays \<open>2 ^ (-1074)\<close>
  (subnormal numbers). The result is a float when it is below \<open>2 ^ 1024\<close>, that is when
  the argument is below \<open>2 ^ 1024 - 2 ^ 970\<close> in absolute value.
\<close>

definition double_round :: "rat \<Rightarrow> rat" where
  "double_round x =
     (if x = 0 then 0
      else let u = pow2 (max (binade \<bar>x\<bar>) (- 1022) - 52)
           in sgn x * of_int (round_half_even (\<bar>x\<bar> / u)) * u)"

definition overflow_threshold :: int where
  "overflow_threshold = 2 ^ 1024 - 2 ^ 970"

definition is_double :: "rat \<Rightarrow> bool" where
  "is_double x \<longleftrightarrow> \<bar>x\<bar> < of_int overflow_threshold \<and> double_round x = x"

text \<open>\<open>float(n)\<close> for an \<open>int\<close>, as done by \<open>float / int\<close>: \<open>OverflowError\<close> from the threshold on.\<close>

definition float_of_int :: "int \<Rightarrow> exn + rat" where
  "float_of_int n =
     (if overflow_threshold \<le> \<bar>n\<bar> then Inl OverflowError else Inr (double_round (of_int n)))"

text \<open>The float for an exact result: an infinity from the threshold on, no exception.\<close>

definition fround :: "rat \<Rightarrow> pyfloat" where
  "fround x =
     (if of_int overflow_threshold \<le> x then PInf
      else if x \<le> - of_int overflow_threshold then NInf
      else Finite (double_round x))"

text \<open>\<open>total + x\<close> for a finite float \<open>x\<close>.\<close>

fun float_add :: "pyfloat \<Rightarrow> rat \<Rightarrow> pyfloat" where
  "float_add (Finite a) x = fround (a + x)"
| "float_add PInf x = PInf"
| "float_add NInf x = NInf"

text \<open>
  \<open>sorted(xs, key=f, reverse=True)\<close> for float keys: descending, equal keys in their
  original order. The key of the ascending sort puts \<open>inf\<close> first and \<open>-inf\<close> last.
\<close>

fun desc_key :: "pyfloat \<Rightarrow> int \<times> rat" where
  "desc_key PInf = (- 1, 0)"
| "desc_key (Finite x) = (0, - x)"
| "desc_key NInf = (1, 0)"

definition float_ge :: "pyfloat \<Rightarrow> pyfloat \<Rightarrow> bool" where
  "float_ge a b \<longleftrightarrow> desc_key a \<le> desc_key b"

definition py_sorted_floats_desc :: "('a \<Rightarrow> pyfloat) \<Rightarrow> 'a list \<Rightarrow> 'a list" where
  "py_sorted_floats_desc f xs = sort_key (\<lambda>x. desc_key (f x)) xs"

section \<open>Reciprocal rank fusion (fts\_manager.py, class ReciprocalRankFusion)\<close>

record fusion_state =
  doc_scores :: "(pyval \<times> pyfloat) list"
  doc_metadata :: "(pyval \<times> ref) list"
  heap :: store

text \<open>
  \<open>weights[tag] / (self.k + rank + 1)\<close>, in the order of evaluation: the weight is looked
  up, the integer denominator is converted to a float, a zero denominator raises, the
  quotient is rounded. The weights are floats, as annotated. The quotient of a float by a
  non-zero integer float is at most the weight in absolute value, so it is finite.
\<close>

definition rrf_score :: "(string \<times> rat) list \<Rightarrow> string \<Rightarrow> int \<Rightarrow> nat \<Rightarrow> exn + rat" where
  "rrf_score weights tag k rank =
     (case map_of weights tag of
        None \<Rightarrow> Inl (KeyError tag)
      | Some w \<Rightarrow>
         (case float_of_int (k + int rank + 1) of
            Inl e \<Rightarrow> Inl e
          | Inr d \<Rightarrow>
              if k + int rank + 1 = 0 then Inl ZeroDivisionError
              else Inr (double_round (w / d))))"

text \<open>
  The first statements of a loop body. \<open>doc_id not in doc_scores\<close> hashes the key and
  raises \<open>TypeError\<close> for a list or a dictionary. An unseen \<open>doc_id\<close> is registered with
  score 0 and the current record (the record itself, not a copy); then the contribution
  is added to the running total.
\<close>

definition add_contribution :: "pyval \<Rightarrow> ref \<Rightarrow> rat \<Rightarrow> fusion_state \<Rightarrow> fusion_state" where
  "add_contribution doc_id r rrf s =
     (let s1 = (if map_of (doc_scores s) doc_id = None
                then s\<lparr>doc_scores := dict_set (doc_scores s) doc_id (Finite 0),
                       doc_metadata := dict_set (doc_metadata s) doc_id r\<rparr>
                else s)
      in s1\<lparr>doc_scores := dict_set (doc_scores s1) doc_id
                               (float_add (dict_get (doc_scores s1) doc_id (Finite 0)) rrf)\<rparr>)"

definition accumulate :: "pyval \<Rightarrow> ref \<Rightarrow> rat \<Rightarrow> fusion_state \<Rightarrow> exn + fusion_state" where
  "accumulate doc_id r rrf s =
     (if \<not> hashable doc_id then Inl TypeError else Inr (add_contribution doc_id r rrf s))"

text \<open>\<open>doc_metadata[doc_id][field] = v\<close>: a write through the stored reference.\<close>

definition annotate ::
  "pyval \<Rightarrow> string \<Rightarrow> pyval \<Rightarrow> fusion_state \<Rightarrow> exn option \<times> fusion_state" where
  "annotate doc_id field v s =
     (case map_of (doc_metadata s) doc_id of
        None \<Rightarrow> (Some (KeyError ''doc_metadata''), s)
      | Some m \<Rightarrow> (None, s\<lparr>heap := (heap s)(m := dict_set (heap s m) field v)\<rparr>))"

text \<open>Statements in sequence: the second runs only when the first did not raise.\<close>

definition and_then ::
  "exn option \<times> 's \<Rightarrow> ('s \<Rightarrow> exn option \<times> 's) \<Rightarrow> exn option \<times> 's" where
  "and_then m f = (case m of (Some e, s) \<Rightarrow> (Some e, s) | (None, s) \<Rightarrow> f s)"

definition vector_step ::
  "(string \<times> rat) list \<Rightarrow> int \<Rightarrow> nat \<Rightarrow> ref \<Rightarrow> fusion_state \<Rightarrow> exn option \<times> fusion_state" where
  "vector_step weights k rank r s =
     (case dict_index (heap s r) ''doc_id'' of
        Inl e \<Rightarrow> (Some e, s)
      | Inr doc_id \<Rightarrow>
         (case rrf_score weights ''vector'' k rank of
            Inl e \<Rightarrow> (Some e, s)
          | Inr rrf \<Rightarrow>
             (case accumulate doc_id r rrf s of
                Inl e \<Rightarrow> (Some e, s)
              | Inr s1 \<Rightarrow>
                  and_then (annotate doc_id ''vector_rank'' (Num (of_nat rank)) s1)
                    (\<lambda>s2. annotate doc_id ''vector_score'' (dict_get (heap s2 r) ''score'' (Num 0)) s2))))"

definition fuzzy_step ::
  "(string \<times> rat) list \<Rightarrow> int \<Rightarrow> nat \<Rightarrow> ref \<Rightarrow> fusion_state \<Rightarrow> exn option \<times> fusion_state" where
  "fuzzy_step weights k rank r s =
     (case dict_index (heap s r) ''doc_id'' of
        Inl e \<Rightarrow> (Some e, s)
      | Inr doc_id \<Rightarrow>
         (case rrf_score weights ''fuzzy'' k rank of
            Inl e \<Rightarrow> (Some e, s)
          | Inr rrf \<Rightarrow>
             (case accumulate doc_id r rrf s of
                Inl e \<Rightarrow> (Some e, s)
              | Inr s1 \<Rightarrow>
                  if map_of (doc_metadata s1) doc_id \<noteq> None
                  then
                    and_then (annotate doc_id ''fuzzy_rank'' (Num (of_nat rank)) s1)
                      (\<lambda>s2. and_then
                         (annotate doc_id ''fuzzy_score'' (dict_get (heap s2 r) ''score'' (Num 0)) s2)
                         (\<lambda>s3. annotate doc_id ''fuzzy_type'' (dict_get (heap s3 r) ''type'' (Str '''')) s3))
                  else (None, s1))))"

text \<open>
  \<open>for rank, result in enumerate(results)\<close>. An exception leaves the loop with the state
  reached at the raise.
\<close>

fun rank_loop ::
  "(nat \<Rightarrow> ref \<Rightarrow> fusion_state \<Rightarrow> exn option \<times> fusion_state) \<Rightarrow> nat \<Rightarrow> ref list \<Rightarrow> fusion_state
     \<Rightarrow> exn option \<times> fusion_state" where
  "rank_loop step rank [] s = (None, s)"
| "rank_loop step rank (r # rs) s =
     (case step rank r s of
        (Some e, s') \<Rightarrow> (Some e, s')
      | (None, s') \<Rightarrow> rank_loop step (Suc rank) rs s')"

text \<open>
  The last loop: a copy of the stored record, with the fused score written to the copy.
  A fused score may be an infinity, so the fields of an output record are the values of
  the copied record or a float.
\<close>

datatype fval = Val pyval | Score pyfloat

type_synonym fused_record = "(string \<times> fval) list"

definition copy_record :: "pydict \<Rightarrow> fused_record" where
  "copy_record d = map (\<lambda>(f, v). (f, Val v)) d"

fun final_loop :: "(pyval \<times> pyfloat) list \<Rightarrow> fusion_state \<Rightarrow> exn + fused_record list" where
  "final_loop [] s = Inr []"
| "final_loop ((doc_id, final_score) # rest) s =
     (case map_of (doc_metadata s) doc_id of
        None \<Rightarrow> Inl (KeyError ''doc_metadata'')
      | Some m \<Rightarrow>
         (case final_loop rest s of
            Inl e \<Rightarrow> Inl e
          | Inr out \<Rightarrow>
              Inr (dict_set (dict_set (copy_record (heap s m)) ''fused_score'' (Score final_score))
                            ''fusion_method'' (Val (Str ''RRF'')) # out)))"

text \<open>The floats written \<open>0.6\<close> and \<open>0.4\<close>.\<close>

definition default_weights :: "(string \<times> rat) list" where
  "default_weights =
     [(''vector'', 5404319552844595 / 9007199254740992),
      (''fuzzy'', 3602879701896397 / 9007199254740992)]"

definition fuse_results ::
  "int \<Rightarrow> ref list \<Rightarrow> ref list \<Rightarrow> (string \<times> rat) list option \<Rightarrow> store
     \<Rightarrow> (exn + fused_record list) \<times> store" where
  "fuse_results k vector_results fuzzy_results weights h =
     (let w = (case weights of None \<Rightarrow> default_weights | Some w \<Rightarrow> w);
          s0 = \<lparr>doc_scores = [], doc_metadata = [], heap = h\<rparr>
      in case rank_loop (vector_step w k) 0 vector_results s0 of
           (Some e, s1) \<Rightarrow> (Inl e, heap s1)
         | (None, s1) \<Rightarrow>
            (case rank_loop (fuzzy_step w k) 0 fuzzy_results s1 of
               (Some e, s2) \<Rightarrow> (Inl e, heap s2)
             | (None, s2) \<Rightarrow> (final_loop (py_sorted_floats_desc snd (doc_scores s2)) s2, heap s2)))"

text \<open>
  The contribution of one position as the code computes it, and the contributions of a
  ranked list to item \<open>d\<close>, in the order of the list.
\<close>

definition contribution :: "rat \<Rightarrow> int \<Rightarrow> nat \<Rightarrow> rat" where
  "contribution w k rank = double_round (w / double_round (of_int (k + int rank + 1)))"

definition contributions :: "store \<Rightarrow> rat \<Rightarrow> int \<Rightarrow> nat \<Rightarrow> ref list \<Rightarrow> pyval \<Rightarrow> rat list" where
  "contributions h w k rank0 rs d =
     map (\<lambda>(rank, r). contribution w k rank)
       (filter (\<lambda>(rank, r). map_of (h r) ''doc_id'' = Some d) (enumerate rank0 rs))"

text \<open>
  The total of item \<open>d\<close> in double precision: the contributions of the vector list, then
  those of the fuzzy list, added one by one to 0.
\<close>

definition float_total :: "store \<Rightarrow> rat \<Rightarrow> rat \<Rightarrow> int \<Rightarrow> ref list \<Rightarrow> ref list \<Rightarrow> pyval \<Rightarrow> pyfloat" where
  "float_total h w_vec w_fuz k vs fs d =
     foldl float_add (Finite 0) (contributions h w_vec k 0 vs d @ contributions h w_fuz k 0 fs d)"

text \<open>
  The total of the specification, in exact arithmetic: \<open>w / (k + rank + 1)\<close> summed over
  the positions \<open>rank\<close> of a list that hold a record whose \<open>doc_id\<close> is \<open>d\<close>.
\<close>

definition rank_share :: "store \<Rightarrow> rat \<Rightarrow> int \<Rightarrow> ref list \<Rightarrow> pyval \<Rightarrow> rat" where
  "rank_share h w k rs d =
     (\<Sum>(rank, r) \<leftarrow> enumerate 0 rs.
        if map_of (h r) ''doc_id'' = Some d then w / of_int (k + int rank + 1) else 0)"

definition fused_score_of :: "fused_record \<Rightarrow> pyfloat" where
  "fused_score_of d = (case map_of d ''fused_score'' of Some (Score x) \<Rightarrow> x | _ \<Rightarrow> Finite 0)"

text \<open>The scenario of the specification: vector list (d1, d2), fuzzy list (d2, d3).\<close>

definition example_store :: store where
  "example_store = (\<lambda>_. [])
     (0 := [(''doc_id'', Str ''d1''), (''score'', Num (9 / 10))],
      1 := [(''doc_id'', Str ''d2''), (''score'', Num (8 / 10))],
      2 := [(''doc_id'', Str ''d2''), (''score'', Num 12)],
      3 := [(''doc_id'', Str ''d3''), (''score'', Num 9)])"

text \<open>Three items whose denominators \<open>2 ^ 60 + 1\<close> and \<open>2 ^ 60 + 2\<close> round to the same float.\<close>

definition tie_store :: store where
  "tie_store = (\<lambda>_. [])
     (0 := [(''doc_id'', Str ''x'')],
      1 := [(''doc_id'', Str ''b'')],
      2 := [(''doc_id'', Str ''a'')])"

text \<open>Two equal weights, for the three items above.\<close>

definition half_weights :: "(string \<times> rat) list" where
  "half_weights = [(''vector'', 1 / 2), (''fuzzy'', 1 / 2)]"

text \<open>
  What the two ranking loops keep true: both dictionaries have the same keys, every
  registered reference denotes a record of that \<open>doc_id\<close>, and no write changes a
  \<open>doc_id\<close> field.
\<close>

definition fusion_inv :: "store \<Rightarrow> fusion_state \<Rightarrow> bool" where
  "fusion_inv h0 s \<longleftrightarrow>
     map fst (doc_metadata s) = map fst (doc_scores s) \<and>
     distinct (map fst (doc_scores s)) \<and>
     (\<forall>d m. map_of (doc_metadata s) d = Some m \<longrightarrow> map_of (heap s m) ''doc_id'' = Some d) \<and>
     (\<forall>r. map_of (heap s r) ''doc_id'' = map_of (h0 r) ''doc_id'')"

text \<open>A record the loops accept: it carries a \<open>doc_id\<close> that can be hashed.\<close>

definition well_formed :: "store \<Rightarrow> ref \<Rightarrow> bool" where
  "well_formed h r = (case map_of (h r) ''doc_id'' of None \<Rightarrow> False | Some d \<Rightarrow> hashable d)"

text \<open>
  What one pass of either loop does to the scores: the keys grow by the item of the
  record, and the contribution is added to the total of that item alone.
\<close>

definition scored ::
  "fusion_state \<Rightarrow> pyval \<Rightarrow> rat \<Rightarrow> fusion_state \<Rightarrow> bool" where
  "scored s x c s' \<longleftrightarrow>
     map fst (doc_scores s') =
       (if map_of (doc_scores s) x = None then map fst (doc_scores s) @ [x] else map fst (doc_scores s)) \<and>
     (\<forall>d. dict_get (doc_scores s') d (Finite 0) =
           (if d = x then float_add (dict_get (doc_scores s) d (Finite 0)) c
            else dict_get (doc_scores s) d (Finite 0)))"


section \<open>Graph memory (graph\_memory.py, class NeuralGraphMemory)\<close>

text \<open>
  \<open>self.graph\<close> is a \<open>networkx.DiGraph\<close>: a dictionary of node attribute dictionaries and,
  for every pair of adjacent nodes, one attribute dictionary. Both keep insertion order.
  \<open>self.embeddings_cache\<close> is the third mutable field of the object.
\<close>

record graph_memory =
  nodes :: "(string \<times> pydict) list"
  edges :: "((string \<times> string) \<times> pydict) list"
  embeddings_cache :: "(string \<times> rat list) list"

definition node_types :: "(string \<times> pydict) list" where
  "node_types =
     [(''document'', [(''color'', Str ''#4CAF50''), (''shape'', Str ''rectangle'')]),
      (''function'', [(''color'', Str ''#2196F3''), (''shape'', Str ''ellipse'')]),
      (''class'', [(''color'', Str ''#FF9800''), (''shape'', Str ''diamond'')]),
      (''conversation'', [(''color'', Str ''#9C27B0''), (''shape'', Str ''circle'')]),
      (''edit'', [(''color'', Str ''#F44336''), (''shape'', Str ''triangle'')]),
      (''error'', [(''color'', Str ''#795548''), (''shape'', Str ''hexagon'')])]"

definition edge_types :: "(string \<times> pydict) list" where
  "edge_types =
     [(''similarity'', [(''weight_range'', Lst [Num 0, Num 1]), (''color'', Str ''#2196F3'')]),
      (''dependency'', [(''weight_range'', Lst [Num 0, Num 1]), (''color'', Str ''#4CAF50'')]),
      (''temporal'', [(''weight_range'', Lst [Num 0, Num 1]), (''color'', Str ''#FF9800'')]),
      (''conversation'', [(''weight_range'', Lst [Num 0, Num 1]), (''color'', Str ''#9C27B0'')]),
      (''edit_relation'', [(''weight_range'', Lst [Num 0, Num 1]), (''color'', Str ''#F44336'')])]"

text \<open>\<open>n in self.graph\<close>, \<open>G.number_of_nodes()\<close>, \<open>G.number_of_edges()\<close>, \<open>G.neighbors(u)\<close>.\<close>

definition has_node :: "graph_memory \<Rightarrow> string \<Rightarrow> bool" where
  "has_node g n = (map_of (nodes g) n \<noteq> None)"

definition number_of_nodes :: "graph_memory \<Rightarrow> nat" where
  "number_of_nodes g = length (nodes g)"

definition number_of_edges :: "graph_memory \<Rightarrow> nat" where
  "number_of_edges g = length (edges g)"

definition neighbors :: "graph_memory \<Rightarrow> string \<Rightarrow> string list" where
  "neighbors g u = map (\<lambda>e. snd (fst e)) (filter (\<lambda>e. fst (fst e) = u) (edges g))"

text \<open>
  \<open>G.add_node(n, **attr)\<close> creates the node with an empty attribute dictionary when it
  is new and then updates the dictionary with \<open>attr\<close>. \<open>G.add_edge(u, v, **attr)\<close> creates
  missing end points and updates the edge's dictionary the same way.
\<close>

definition nx_add_node :: "string \<Rightarrow> pydict \<Rightarrow> graph_memory \<Rightarrow> graph_memory" where
  "nx_add_node n attr g =
     g\<lparr>nodes := dict_set (nodes g) n (dict_update (dict_get (nodes g) n []) attr)\<rparr>"

definition nx_add_edge :: "string \<Rightarrow> string \<Rightarrow> pydict \<Rightarrow> graph_memory \<Rightarrow> graph_memory" where
  "nx_add_edge u v attr g =
     (let g1 = (if has_node g u then g else nx_add_node u [] g);
          g2 = (if has_node g1 v then g1 else nx_add_node v [] g1)
      in g2\<lparr>edges := dict_set (edges g2) (u, v) (dict_update (dict_get (edges g2) (u, v) []) attr)\<rparr>)"

text \<open>
  \<open>try: body except Exception as e: log; return default\<close>. The public operations end in
  this clause; their results have the type of a Python call, a raise or a value.
\<close>

definition try_except :: "(exn + 'a) \<times> 's \<Rightarrow> 'a \<Rightarrow> (exn + 'a) \<times> 's" where
  "try_except body dflt =
     (case body of (Inl e, s) \<Rightarrow> (Inr dflt, s) | (Inr v, s) \<Rightarrow> (Inr v, s))"

text \<open>
  \<open>add_node\<close>. The clock reading \<open>datetime.now().isoformat()\<close> and Python's \<open>hash\<close> on
  hashable values are parameters.
\<close>

definition node_attrs ::
  "(pyval \<Rightarrow> rat) \<Rightarrow> string \<Rightarrow> string \<Rightarrow> pyval \<Rightarrow> pydict option \<Rightarrow> pydict" where
  "node_attrs hash now node_type content metadata =
     (let metadata' = (case metadata of None \<Rightarrow> [] | Some m \<Rightarrow> m);
          attrs = [(''type'', Str node_type), (''content'', content),
                   (''metadata'', Dict metadata'), (''created_at'', Str now),
                   (''content_hash'', Num (hash content))]
      in case map_of node_types node_type of
           None \<Rightarrow> attrs
         | Some visual \<Rightarrow> dict_update attrs visual)"

definition add_node_body ::
  "(pyval \<Rightarrow> rat) \<Rightarrow> string \<Rightarrow> string \<Rightarrow> string \<Rightarrow> pyval \<Rightarrow> pydict option \<Rightarrow> rat list option
     \<Rightarrow> graph_memory \<Rightarrow> (exn + bool) \<times> graph_memory" where
  "add_node_body hash now node_id node_type content metadata embedding g =
     (if \<not> hashable content then (Inl TypeError, g)
      else
        (let g1 = nx_add_node node_id (node_attrs hash now node_type content metadata) g;
             g2 = (case embedding of
                     None \<Rightarrow> g1
                   | Some e \<Rightarrow> g1\<lparr>embeddings_cache := dict_set (embeddings_cache g1) node_id e\<rparr>)
         in (Inr True, g2)))"

definition add_node ::
  "(pyval \<Rightarrow> rat) \<Rightarrow> string \<Rightarrow> string \<Rightarrow> string \<Rightarrow> pyval \<Rightarrow> pydict option \<Rightarrow> rat list option
     \<Rightarrow> graph_memory \<Rightarrow> (exn + bool) \<times> graph_memory" where
  "add_node hash now node_id node_type content metadata embedding g =
     try_except (add_node_body hash now node_id node_type content metadata embedding g) False"

text \<open>
  \<open>f"{weight:.3f}"\<close> in the debug message. A float is formatted; an \<open>int\<close> is converted to
  a float first, which raises \<open>OverflowError\<close> from the threshold on (numbers that large
  are integers: every float is smaller).
\<close>

definition format_3f :: "rat \<Rightarrow> exn + unit" where
  "format_3f weight =
     (if of_int overflow_threshold \<le> \<bar>weight\<bar> then Inl OverflowError else Inr ())"

text \<open>
  \<open>add_edge\<close>: the guard on the end points returns \<open>False\<close> before anything is written.
  The debug message is built after the edge has been inserted, inside the \<open>try\<close>.
\<close>

definition edge_attrs ::
  "string \<Rightarrow> string \<Rightarrow> rat \<Rightarrow> pydict option \<Rightarrow> pydict" where
  "edge_attrs now edge_type weight metadata =
     (let attrs = [(''type'', Str edge_type), (''weight'', Num weight),
                   (''metadata'', Dict (case metadata of None \<Rightarrow> [] | Some m \<Rightarrow> m)),
                   (''created_at'', Str now)]
      in case map_of edge_types edge_type of
           None \<Rightarrow> attrs
         | Some visual \<Rightarrow> dict_update attrs visual)"

definition add_edge_body ::
  "string \<Rightarrow> string \<Rightarrow> string \<Rightarrow> string \<Rightarrow> rat \<Rightarrow> pydict option \<Rightarrow> graph_memory
     \<Rightarrow> (exn + bool) \<times> graph_memory" where
  "add_edge_body now source target edge_type weight metadata g =
     (if \<not> has_node g source \<or> \<not> has_node g target then (Inr False, g)
      else
        (let g1 = nx_add_edge source target (edge_attrs now edge_type weight metadata) g
         in case format_3f weight of
              Inl e \<Rightarrow> (Inl e, g1)
            | Inr u \<Rightarrow> (Inr True, g1)))"

definition add_edge ::
  "string \<Rightarrow> string \<Rightarrow> string \<Rightarrow> string \<Rightarrow> rat \<Rightarrow> pydict option \<Rightarrow> graph_memory
     \<Rightarrow> (exn + bool) \<times> graph_memory" where
  "add_edge now source target edge_type weight metadata g =
     try_except (add_edge_body now source target edge_type weight metadata g) False"

text \<open>A graph holding the single node \<open>a\<close>, and the empty graph.\<close>

definition graph_a :: graph_memory where
  "graph_a = \<lparr>nodes = [(''a'', [(''type'', Str ''document''), (''content'', Str ''alpha'')])],
              edges = [], embeddings_cache = []\<rparr>"

definition empty_graph :: graph_memory where
  "empty_graph = \<lparr>nodes = [], edges = [], embeddings_cache = []\<rparr>"

text \<open>\<open>self.graph.nodes[n].get(field)\<close>\<close>

definition node_attr :: "graph_memory \<Rightarrow> string \<Rightarrow> string \<Rightarrow> pyval option" where
  "node_attr g n field = map_of (dict_get (nodes g) n []) field"

text \<open>
  A \<open>try\<close> block that returns a value and changes no state, under the same
  \<open>except Exception\<close> clause.
\<close>

definition try_except_value :: "exn + 'a \<Rightarrow> 'a \<Rightarrow> exn + 'a" where
  "try_except_value body dflt = (case body of Inl e \<Rightarrow> Inr dflt | Inr v \<Rightarrow> Inr v)"

text \<open>
  The graph algorithms of networkx are not part of the repository; they are parameters.
  \<open>nx.pagerank(G, weight='weight')\<close> returns a dictionary from node to score,
  \<open>nx.shortest_path_length(G, s, t)\<close> a number of hops and
  \<open>nx.shortest_path(G, s, t, weight='weight')\<close> a list of nodes; each may raise.
\<close>

record nx_lib =
  nx_pagerank :: "graph_memory \<Rightarrow> exn + (string \<times> rat) list"
  nx_shortest_path_length :: "graph_memory \<Rightarrow> string \<Rightarrow> string \<Rightarrow> exn + nat"
  nx_shortest_path :: "graph_memory \<Rightarrow> string \<Rightarrow> string \<Rightarrow> exn + string list"

text \<open>\<open>_bfs_search\<close>: the queue holds (node, depth, path); the loop stops at 10 results.\<close>

definition bfs_result :: "string \<Rightarrow> nat \<Rightarrow> string list \<Rightarrow> pydict" where
  "bfs_result current depth path =
     [(''node_id'', Str current), (''path'', Lst (map Str (path @ [current]))),
      (''depth'', Num (of_nat depth)), (''method'', Str ''bfs''),
      (''composite_score'', Num (1 / (of_nat depth + 1)))]"

function bfs_loop ::
  "graph_memory \<Rightarrow> string \<Rightarrow> string \<Rightarrow> int \<Rightarrow> (string \<times> nat \<times> string list) list \<Rightarrow> string set
     \<Rightarrow> pydict list \<Rightarrow> exn + pydict list" where
  "bfs_loop g start_node goal_type max_steps [] visited results = Inr results"
| "bfs_loop g start_node goal_type max_steps ((current, depth, path) # queue) visited results =
     (if \<not> length results < 10 then Inr results
      else if int depth > max_steps \<or> current \<in> visited
      then bfs_loop g start_node goal_type max_steps queue visited results
      else
        (case map_of (nodes g) current of
           None \<Rightarrow> Inl (KeyError current)
         | Some attrs \<Rightarrow>
             bfs_loop g start_node goal_type max_steps
               (queue @ map (\<lambda>neighbor. (neighbor, Suc depth, path @ [current]))
                          (filter (\<lambda>neighbor. neighbor \<notin> insert current visited)
                             (neighbors g current)))
               (insert current visited)
               (if dict_get attrs ''type'' (Str '''') = Str goal_type \<and> current \<noteq> start_node
                then results @ [bfs_result current depth path]
                else results)))"
  by pat_completeness auto

termination
proof (relation "measures [\<lambda>(g, s, t, m, q, v, r). card (fst ` set (nodes g) - v),
                           \<lambda>(g, s, t, m, q, v, r). length q]", goal_cases)
  case 1
  then show ?case by simp
next
  case 2
  then show ?case by simp
next
  case (3 g start_node goal_type max_steps current depth path queue visited results attrs)
  have "current \<in> fst ` set (nodes g)"
    using 3 by (metis map_of_eq_None_iff option.distinct(1))
  moreover have "current \<notin> visited" using 3 by simp
  ultimately have "card (fst ` set (nodes g) - insert current visited) < card (fst ` set (nodes g) - visited)"
    by (intro psubset_card_mono) auto
  then show ?case by simp
qed

definition bfs_search :: "graph_memory \<Rightarrow> string \<Rightarrow> string \<Rightarrow> int \<Rightarrow> exn + pydict list" where
  "bfs_search g start_node goal_type max_steps =
     bfs_loop g start_node goal_type max_steps [(start_node, 0, [])] {} []"

text \<open>
  \<open>_pagerank_search\<close>: the inner \<open>try\<close> catches \<open>NetworkXNoPath\<close> only; every other
  exception reaches the outer clause, which returns the empty list.
\<close>

definition pagerank_result :: "(string \<times> rat) list \<Rightarrow> string \<Rightarrow> nat \<Rightarrow> pydict" where
  "pagerank_result pagerank node_id path_length =
     [(''node_id'', Str node_id), (''pagerank_score'', Num (dict_get pagerank node_id 0)),
      (''path_length'', Num (of_nat path_length)), (''method'', Str ''pagerank''),
      (''composite_score'', Num (dict_get pagerank node_id 0 / (of_nat path_length + 1)))]"

fun pagerank_loop ::
  "nx_lib \<Rightarrow> graph_memory \<Rightarrow> (string \<times> rat) list \<Rightarrow> string \<Rightarrow> string \<Rightarrow> int
     \<Rightarrow> (string \<times> pydict) list \<Rightarrow> pydict list \<Rightarrow> exn + pydict list" where
  "pagerank_loop lib g pagerank start_node goal_type max_steps [] goal_nodes = Inr goal_nodes"
| "pagerank_loop lib g pagerank start_node goal_type max_steps ((node_id, node_data) # rest) goal_nodes =
     (if map_of node_data ''type'' = Some (Str goal_type)
      then
        (case nx_shortest_path_length lib g start_node node_id of
           Inl e \<Rightarrow>
             if e = NetworkXNoPath
             then pagerank_loop lib g pagerank start_node goal_type max_steps rest goal_nodes
             else Inl e
         | Inr path_length \<Rightarrow>
             pagerank_loop lib g pagerank start_node goal_type max_steps rest
               (if int path_length \<le> max_steps
                then goal_nodes @ [pagerank_result pagerank node_id path_length]
                else goal_nodes))
      else pagerank_loop lib g pagerank start_node goal_type max_steps rest goal_nodes)"

definition pagerank_search :: "nx_lib \<Rightarrow> graph_memory \<Rightarrow> string \<Rightarrow> string \<Rightarrow> int \<Rightarrow> pydict list" where
  "pagerank_search lib g start_node goal_type max_steps =
     (case nx_pagerank lib g of
        Inl e \<Rightarrow> []
      | Inr pagerank \<Rightarrow>
         (case pagerank_loop lib g pagerank start_node goal_type max_steps (nodes g) [] of
            Inl e \<Rightarrow> []
          | Inr goal_nodes \<Rightarrow> goal_nodes))"

text \<open>\<open>_shortest_path_search\<close>, with the same two levels of \<open>try\<close>.\<close>

fun path_weight :: "graph_memory \<Rightarrow> string list \<Rightarrow> exn + rat" where
  "path_weight g (a # b # rest) =
     (case map_of (edges g) (a, b) of
        None \<Rightarrow> Inl (KeyError a)
      | Some edge_data \<Rightarrow>
         (case dict_get edge_data ''weight'' (Num 0) of
            Num w \<Rightarrow>
              (case path_weight g (b # rest) of Inl e \<Rightarrow> Inl e | Inr x \<Rightarrow> Inr (w + x))
          | _ \<Rightarrow> Inl TypeError))"
| "path_weight g path = Inr 0"

definition shortest_path_result :: "string \<Rightarrow> string list \<Rightarrow> rat \<Rightarrow> pydict" where
  "shortest_path_result goal_node path weight =
     [(''node_id'', Str goal_node), (''path'', Lst (map Str path)),
      (''path_length'', Num (of_nat (length path) - 1)), (''path_weight'', Num weight),
      (''method'', Str ''shortest_path''),
      (''composite_score'', Num (weight / of_nat (length path)))]"

fun shortest_path_loop ::
  "nx_lib \<Rightarrow> graph_memory \<Rightarrow> string \<Rightarrow> int \<Rightarrow> string list \<Rightarrow> pydict list \<Rightarrow> exn + pydict list" where
  "shortest_path_loop lib g start_node max_steps [] results = Inr results"
| "shortest_path_loop lib g start_node max_steps (goal_node # rest) results =
     (case nx_shortest_path lib g start_node goal_node of
        Inl e \<Rightarrow>
          if e = NetworkXNoPath
          then shortest_path_loop lib g start_node max_steps rest results
          else Inl e
      | Inr path \<Rightarrow>
          if int (length path) \<le> max_steps + 1
          then
            (case path_weight g path of
               Inl e \<Rightarrow> Inl e
             | Inr weight \<Rightarrow>
                 if path = [] then Inl ZeroDivisionError
                 else shortest_path_loop lib g start_node max_steps rest
                        (results @ [shortest_path_result goal_node path weight]))
          else shortest_path_loop lib g start_node max_steps rest results)"

definition nodes_of_type :: "graph_memory \<Rightarrow> string \<Rightarrow> string list" where
  "nodes_of_type g goal_type =
     map fst (filter (\<lambda>nd. map_of (snd nd) ''type'' = Some (Str goal_type)) (nodes g))"

definition shortest_path_search ::
  "nx_lib \<Rightarrow> graph_memory \<Rightarrow> string \<Rightarrow> string \<Rightarrow> int \<Rightarrow> pydict list" where
  "shortest_path_search lib g start_node goal_type max_steps =
     (case shortest_path_loop lib g start_node max_steps (nodes_of_type g goal_type) [] of
        Inl e \<Rightarrow> []
      | Inr results \<Rightarrow> results)"

text \<open>\<open>reasoning_walk\<close>: the three strategies per start node, first-seen deduplication, sort.\<close>

fun walk_loop ::
  "nx_lib \<Rightarrow> graph_memory \<Rightarrow> string \<Rightarrow> int \<Rightarrow> string list \<Rightarrow> pydict list \<Rightarrow> exn + pydict list" where
  "walk_loop lib g goal_type max_steps [] results = Inr results"
| "walk_loop lib g goal_type max_steps (start_node # rest) results =
     (if \<not> has_node g start_node then walk_loop lib g goal_type max_steps rest results
      else
        (case bfs_search g start_node goal_type max_steps of
           Inl e \<Rightarrow> Inl e
         | Inr bfs_results \<Rightarrow>
             walk_loop lib g goal_type max_steps rest
               (results @ bfs_results @ pagerank_search lib g start_node goal_type max_steps
                  @ shortest_path_search lib g start_node goal_type max_steps)))"

fun dedupe :: "pydict list \<Rightarrow> pyval set \<Rightarrow> pydict list \<Rightarrow> exn + pydict list" where
  "dedupe [] seen final_results = Inr final_results"
| "dedupe (result # rest) seen final_results =
     (case dict_index result ''node_id'' of
        Inl e \<Rightarrow> Inl e
      | Inr node_id \<Rightarrow>
          if node_id \<notin> seen then dedupe rest (insert node_id seen) (final_results @ [result])
          else dedupe rest seen final_results)"

text \<open>
  The sort key \<open>x.get("composite_score", 0)\<close>; keys that are not numbers make the
  comparison raise.
\<close>

definition composite_score :: "pydict \<Rightarrow> rat" where
  "composite_score x = (case dict_get x ''composite_score'' (Num 0) of Num v \<Rightarrow> v | _ \<Rightarrow> 0)"

definition numeric_score :: "pydict \<Rightarrow> bool" where
  "numeric_score x = (case dict_get x ''composite_score'' (Num 0) of Num v \<Rightarrow> True | _ \<Rightarrow> False)"

definition sort_by_score :: "pydict list \<Rightarrow> exn + pydict list" where
  "sort_by_score results =
     (if list_all numeric_score results then Inr (py_sorted_desc composite_score results)
      else Inl TypeError)"

definition reasoning_walk_body ::
  "nx_lib \<Rightarrow> graph_memory \<Rightarrow> string list \<Rightarrow> string \<Rightarrow> int \<Rightarrow> exn + pydict list" where
  "reasoning_walk_body lib g start_nodes goal_type max_steps =
     (case walk_loop lib g goal_type max_steps start_nodes [] of
        Inl e \<Rightarrow> Inl e
      | Inr results \<Rightarrow>
         (case dedupe results {} [] of
            Inl e \<Rightarrow> Inl e
          | Inr final_results \<Rightarrow> sort_by_score final_results))"

definition reasoning_walk ::
  "nx_lib \<Rightarrow> graph_memory \<Rightarrow> string list \<Rightarrow> string \<Rightarrow> int \<Rightarrow> exn + pydict list" where
  "reasoning_walk lib g start_nodes goal_type max_steps =
     try_except_value (reasoning_walk_body lib g start_nodes goal_type max_steps) []"

text \<open>
  What networkx computes on a graph with one node \<open>a\<close> and no edge: rank 1 for the node,
  distance 0 and the one-node path from the node to itself.
\<close>

definition one_node_lib :: nx_lib where
  "one_node_lib =
     \<lparr>nx_pagerank = (\<lambda>g. Inr [(''a'', 1)]),
      nx_shortest_path_length = (\<lambda>g s t. if s = t then Inr 0 else Inl NetworkXNoPath),
      nx_shortest_path = (\<lambda>g s t. if s = t then Inr [s] else Inl NetworkXNoPath)\<rparr>"

text \<open>The test of the breadth-first search on a node: \<open>nodes[n].get("type", "") == goal_type\<close>.\<close>

definition is_goal_node :: "graph_memory \<Rightarrow> string \<Rightarrow> string \<Rightarrow> bool" where
  "is_goal_node g goal_type n =
     (case map_of (nodes g) n of
        None \<Rightarrow> False
      | Some attrs \<Rightarrow> dict_get attrs ''type'' (Str '''') = Str goal_type)"

text \<open>In a networkx graph both end points of an edge are nodes.\<close>

definition targets_exist :: "graph_memory \<Rightarrow> bool" where
  "targets_exist g = list_all (\<lambda>e. has_node g (snd (fst e))) (edges g)"

text \<open>The nodes on which the test of the breadth-first search succeeds.\<close>

definition goal_set :: "graph_memory \<Rightarrow> string \<Rightarrow> string set" where
  "goal_set g goal_type = {n \<in> fst ` set (nodes g). is_goal_node g goal_type n}"

text \<open>A record of a walk: it names its node and carries a numeric score.\<close>

definition walk_record :: "pydict \<Rightarrow> bool" where
  "walk_record r = ((\<exists>n. map_of r ''node_id'' = Some (Str n)) \<and> numeric_score r)"

text \<open>
  What the two path functions of the library are assumed to return for a pair of nodes:
  a path that follows edges of the graph from the first node to the second, and a length
  within which the second node is reachable from the first.
\<close>

fun is_walk :: "graph_memory \<Rightarrow> string list \<Rightarrow> bool" where
  "is_walk g [] = False"
| "is_walk g [x] = True"
| "is_walk g (x # y # rest) = (y \<in> set (neighbors g x) \<and> is_walk g (y # rest))"

fun within_hops :: "graph_memory \<Rightarrow> string \<Rightarrow> nat \<Rightarrow> string list" where
  "within_hops g s 0 = [s]"
| "within_hops g s (Suc n) = within_hops g s n @ concat (map (neighbors g) (within_hops g s n))"

definition lib_sound :: "nx_lib \<Rightarrow> graph_memory \<Rightarrow> string \<Rightarrow> string \<Rightarrow> bool" where
  "lib_sound lib g s t =
     ((case nx_shortest_path lib g s t of
         Inl e \<Rightarrow> True
       | Inr p \<Rightarrow> is_walk g p \<and> hd p = s \<and> last p = t) \<and>
      (case nx_shortest_path_length lib g s t of
         Inl e \<Rightarrow> True
       | Inr n \<Rightarrow> t \<in> set (within_hops g s n)))"

text \<open>
  The path \<open>start -> mid -> goal\<close>, the same graph with one more edge \<open>start -> goal\<close>, and
  what networkx computes on the path: the rank vector (for damping 0.85, as exact
  fractions), hop counts and cheapest paths.
\<close>

definition path_graph :: graph_memory where
  "path_graph =
     \<lparr>nodes = [(''start'', [(''type'', Str ''conversation'')]),
               (''mid'', [(''type'', Str ''function'')]),
               (''goal'', [(''type'', Str ''document'')])],
      edges = [((''start'', ''mid''), [(''weight'', Num (1 / 2))]),
               ((''mid'', ''goal''), [(''weight'', Num (1 / 4))])],
      embeddings_cache = []\<rparr>"

definition shortcut_graph :: graph_memory where
  "shortcut_graph =
     path_graph\<lparr>edges := edges path_graph @ [((''start'', ''goal''), [(''weight'', Num 1)])]\<rparr>"

definition path_lib :: nx_lib where
  "path_lib =
     \<lparr>nx_pagerank = (\<lambda>g. Inr [(''start'', 400 / 2169), (''mid'', 740 / 2169), (''goal'', 343 / 723)]),
      nx_shortest_path_length = (\<lambda>g s t.
         if s = t then Inr 0
         else if (s, t) = (''start'', ''mid'') \<or> (s, t) = (''mid'', ''goal'') then Inr 1
         else if (s, t) = (''start'', ''goal'') then Inr 2
         else Inl NetworkXNoPath),
      nx_shortest_path = (\<lambda>g s t.
         if s = t then Inr [s]
         else if (s, t) = (''start'', ''mid'') \<or> (s, t) = (''mid'', ''goal'') then Inr [s, t]
         else if (s, t) = (''start'', ''goal'') then Inr [''start'', ''mid'', ''goal'']
         else Inl NetworkXNoPath)\<rparr>"









section \<open>Properties of the fusion\<close>

lemma bit_length_code [code]:
  "bit_length 0 = 0"
  "bit_length (Int.Pos k) = num_bits k"
  "bit_length (Int.Neg k) = 0"
  by (simp_all add: bit_length_def Int.Pos_def Int.Neg_def)

lemmas fuse_eval = fuse_results_def vector_step_def fuzzy_step_def
  dict_index_def accumulate_def add_contribution_def annotate_def and_then_def dict_get_def
  py_sorted_floats_desc_def copy_record_def Let_def

lemma map_of_dict_set: "map_of (dict_set d k v) k' = (if k' = k then Some v else map_of d k')"
  by (induction d) auto

lemma keys_dict_set:
  "map fst (dict_set d k v) = (if map_of d k = None then map fst d @ [k] else map fst d)"
  by (induction d) (auto split: if_splits)

lemma dict_get_dict_set: "dict_get (dict_set d k v) k' dflt = (if k' = k then v else dict_get d k' dflt)"
  by (simp add: dict_get_def map_of_dict_set)

lemma map_of_copy_record: "map_of (copy_record d) f = map_option Val (map_of d f)"
  by (induction d) (auto simp: copy_record_def)

lemma inv_keys: "fusion_inv h0 s \<Longrightarrow> map fst (doc_metadata s) = map fst (doc_scores s)"
  unfolding fusion_inv_def by blast

lemma inv_distinct: "fusion_inv h0 s \<Longrightarrow> distinct (map fst (doc_scores s))"
  unfolding fusion_inv_def by blast

lemma inv_meta:
  "fusion_inv h0 s \<Longrightarrow> map_of (doc_metadata s) d = Some m \<Longrightarrow> map_of (heap s m) ''doc_id'' = Some d"
  unfolding fusion_inv_def by blast

lemma inv_heap: "fusion_inv h0 s \<Longrightarrow> map_of (heap s r) ''doc_id'' = map_of (h0 r) ''doc_id''"
  unfolding fusion_inv_def by blast

lemma inv_init: "fusion_inv h \<lparr>doc_scores = [], doc_metadata = [], heap = h\<rparr>"
  by (simp add: fusion_inv_def)

lemma well_formedD:
  "well_formed h r \<Longrightarrow> \<exists>d. map_of (h r) ''doc_id'' = Some d \<and> hashable d"
  by (auto simp: well_formed_def split: option.splits)

lemma add_contribution_scores_keys:
  "map fst (doc_scores (add_contribution x r rrf s)) =
     (if map_of (doc_scores s) x = None then map fst (doc_scores s) @ [x] else map fst (doc_scores s))"
  by (simp add: add_contribution_def Let_def keys_dict_set map_of_dict_set)

lemma add_contribution_score:
  "dict_get (doc_scores (add_contribution x r rrf s)) d (Finite 0) =
     (if d = x then float_add (dict_get (doc_scores s) d (Finite 0)) rrf
      else dict_get (doc_scores s) d (Finite 0))"
  by (auto simp: add_contribution_def Let_def dict_get_def map_of_dict_set split: option.splits)

lemma add_contribution_heap: "heap (add_contribution x r rrf s) = heap s"
  by (simp add: add_contribution_def Let_def)

lemma same_keys_None:
  assumes "map fst a = map fst b"
  shows "map_of a k = None \<longleftrightarrow> map_of b k = None"
proof -
  have "fst ` set a = fst ` set b"
    using assms by (metis set_map)
  then show ?thesis by (simp add: map_of_eq_None_iff)
qed

lemma add_contribution_inv:
  assumes "fusion_inv h0 s" "map_of (heap s r) ''doc_id'' = Some x"
  shows "fusion_inv h0 (add_contribution x r rrf s)"
proof (cases "map_of (doc_scores s) x = None")
  case True
  then have m: "map_of (doc_metadata s) x = None"
    using assms(1) same_keys_None[of "doc_metadata s" "doc_scores s" x] by (simp add: fusion_inv_def)
  have "x \<notin> set (map fst (doc_scores s))"
    using True by (simp add: map_of_eq_None_iff)
  then show ?thesis
    using assms True m
    by (auto simp add: fusion_inv_def add_contribution_def Let_def keys_dict_set map_of_dict_set
          simp del: map_of_eq_Some_iff)
next
  case False
  then show ?thesis
    using assms
    by (auto simp add: fusion_inv_def add_contribution_def Let_def keys_dict_set map_of_dict_set
          simp del: map_of_eq_Some_iff)
qed

lemma add_contribution_meta:
  assumes "fusion_inv h0 s"
  shows "map_of (doc_metadata (add_contribution x r rrf s)) d =
     (if d = x then Some (case map_of (doc_metadata s) x of None \<Rightarrow> r | Some m \<Rightarrow> m)
      else map_of (doc_metadata s) d)"
proof (cases "map_of (doc_scores s) x = None")
  case True
  then have "map_of (doc_metadata s) x = None"
    using same_keys_None[OF inv_keys[OF assms], of x] by simp
  then show ?thesis using True by (simp add: add_contribution_def Let_def map_of_dict_set)
next
  case False
  then have "map_of (doc_metadata s) x \<noteq> None"
    using same_keys_None[OF inv_keys[OF assms], of x] by simp
  then show ?thesis using False by (auto simp: add_contribution_def Let_def)
qed

lemma write_inv:
  assumes inv: "fusion_inv h0 s" and f: "f \<noteq> ''doc_id''"
  shows "fusion_inv h0 (s\<lparr>heap := (heap s)(m := dict_set (heap s m) f v)\<rparr>)"
proof -
  let ?s' = "s\<lparr>heap := (heap s)(m := dict_set (heap s m) f v)\<rparr>"
  have same: "\<And>r. map_of (heap ?s' r) ''doc_id'' = map_of (heap s r) ''doc_id''"
    using f by (simp add: map_of_dict_set)
  show ?thesis
    unfolding fusion_inv_def
  proof (intro conjI allI impI)
    show "map fst (doc_metadata ?s') = map fst (doc_scores ?s')"
      using inv_keys[OF inv] by simp
    show "distinct (map fst (doc_scores ?s'))"
      using inv_distinct[OF inv] by simp
    fix d m' assume "map_of (doc_metadata ?s') d = Some m'"
    then have "map_of (heap s m') ''doc_id'' = Some d"
      using inv_meta[OF inv, of d m'] by simp
    then show "map_of (heap ?s' m') ''doc_id'' = Some d"
      using same[of m'] by simp
  next
    fix r show "map_of (heap ?s' r) ''doc_id'' = map_of (h0 r) ''doc_id''"
      using same[of r] inv_heap[OF inv, of r] by simp
  qed
qed

lemma rrf_score_ok:
  assumes "map_of w tag = Some wt" "0 \<le> k" "k + int rank + 1 < overflow_threshold"
  shows "rrf_score w tag k rank = Inr (contribution wt k rank)"
  using assms by (simp add: rrf_score_def float_of_int_def contribution_def)

lemma vector_step_run:
  assumes inv: "fusion_inv h0 s" and id: "map_of (h0 r) ''doc_id'' = Some x" and hx: "hashable x"
    and w: "map_of w ''vector'' = Some wt" and k: "0 \<le> k"
    and b: "k + int rank + 1 < overflow_threshold"
  shows "\<exists>s' m v. vector_step w k rank r s = (None, s') \<and> fusion_inv h0 s' \<and>
           doc_scores s' = doc_scores (add_contribution x r (contribution wt k rank) s) \<and>
           doc_metadata s' = doc_metadata (add_contribution x r (contribution wt k rank) s) \<and>
           map_of (doc_metadata s') x = Some m \<and>
           heap s' = (heap s)(m := dict_set (dict_set (heap s m) ''vector_rank'' (Num (of_nat rank)))
                                    ''vector_score'' v)"
proof -
  define s1 where "s1 = add_contribution x r (contribution wt k rank) s"
  define m where "m = (case map_of (doc_metadata s) x of None \<Rightarrow> r | Some m \<Rightarrow> m)"
  define s2 where "s2 = s1\<lparr>heap := (heap s1)(m := dict_set (heap s1 m) ''vector_rank'' (Num (of_nat rank)))\<rparr>"
  define v where "v = dict_get (heap s2 r) ''score'' (Num 0)"
  define s3 where "s3 = s2\<lparr>heap := (heap s2)(m := dict_set (heap s2 m) ''vector_score'' v)\<rparr>"
  have idr: "map_of (heap s r) ''doc_id'' = Some x" using inv_heap[OF inv, of r] id by simp
  have acc: "accumulate x r (contribution wt k rank) s = Inr s1"
    using hx by (simp add: accumulate_def s1_def)
  have reg: "map_of (doc_metadata s1) x = Some m"
    unfolding s1_def m_def using add_contribution_meta[OF inv, of x r _ x] by simp
  have heap1: "heap s1 = heap s" by (simp add: s1_def add_contribution_heap)
  have inv1: "fusion_inv h0 s1" unfolding s1_def by (rule add_contribution_inv[OF inv idr])
  have inv2: "fusion_inv h0 s2" unfolding s2_def by (rule write_inv[OF inv1]) simp
  have inv3: "fusion_inv h0 s3" unfolding s3_def by (rule write_inv[OF inv2]) simp
  have md2: "doc_metadata s2 = doc_metadata s1" by (simp add: s2_def)
  have a1: "annotate x ''vector_rank'' (Num (of_nat rank)) s1 = (None, s2)"
    using reg by (simp add: annotate_def s2_def)
  have a2: "annotate x ''vector_score'' (dict_get (heap s2 r) ''score'' (Num 0)) s2 = (None, s3)"
    using reg md2 by (simp add: annotate_def s3_def v_def)
  have sc: "rrf_score w ''vector'' k rank = Inr (contribution wt k rank)"
    by (rule rrf_score_ok[OF w k b])
  have run: "vector_step w k rank r s = (None, s3)"
    unfolding vector_step_def using idr sc acc a1 a2
    by (simp add: dict_index_def and_then_def)
  have h3: "heap s3 = (heap s)(m := dict_set (dict_set (heap s m) ''vector_rank'' (Num (of_nat rank)))
                                    ''vector_score'' v)"
    by (simp add: s3_def s2_def heap1)
  have sc3: "doc_scores s3 = doc_scores s1" by (simp add: s3_def s2_def)
  have md3: "doc_metadata s3 = doc_metadata s1" by (simp add: s3_def s2_def)
  have reg3: "map_of (doc_metadata s3) x = Some m" using reg md3 by simp
  show ?thesis
    using run inv3 sc3 md3 reg3 h3 unfolding s1_def by blast
qed

lemma fuzzy_step_run:
  assumes inv: "fusion_inv h0 s" and id: "map_of (h0 r) ''doc_id'' = Some x" and hx: "hashable x"
    and w: "map_of w ''fuzzy'' = Some wt" and k: "0 \<le> k"
    and b: "k + int rank + 1 < overflow_threshold"
  shows "\<exists>s' m v t. fuzzy_step w k rank r s = (None, s') \<and> fusion_inv h0 s' \<and>
           doc_scores s' = doc_scores (add_contribution x r (contribution wt k rank) s) \<and>
           doc_metadata s' = doc_metadata (add_contribution x r (contribution wt k rank) s) \<and>
           map_of (doc_metadata s') x = Some m \<and>
           heap s' = (heap s)(m := dict_set (dict_set (dict_set (heap s m)
                                      ''fuzzy_rank'' (Num (of_nat rank))) ''fuzzy_score'' v)
                                      ''fuzzy_type'' t)"
proof -
  define s1 where "s1 = add_contribution x r (contribution wt k rank) s"
  define m where "m = (case map_of (doc_metadata s) x of None \<Rightarrow> r | Some m \<Rightarrow> m)"
  define s2 where "s2 = s1\<lparr>heap := (heap s1)(m := dict_set (heap s1 m) ''fuzzy_rank'' (Num (of_nat rank)))\<rparr>"
  define v where "v = dict_get (heap s2 r) ''score'' (Num 0)"
  define s3 where "s3 = s2\<lparr>heap := (heap s2)(m := dict_set (heap s2 m) ''fuzzy_score'' v)\<rparr>"
  define t where "t = dict_get (heap s3 r) ''type'' (Str [])"
  define s4 where "s4 = s3\<lparr>heap := (heap s3)(m := dict_set (heap s3 m) ''fuzzy_type'' t)\<rparr>"
  have idr: "map_of (heap s r) ''doc_id'' = Some x" using inv_heap[OF inv, of r] id by simp
  have acc: "accumulate x r (contribution wt k rank) s = Inr s1"
    using hx by (simp add: accumulate_def s1_def)
  have reg: "map_of (doc_metadata s1) x = Some m"
    unfolding s1_def m_def using add_contribution_meta[OF inv, of x r _ x] by simp
  have heap1: "heap s1 = heap s" by (simp add: s1_def add_contribution_heap)
  have inv1: "fusion_inv h0 s1" unfolding s1_def by (rule add_contribution_inv[OF inv idr])
  have inv2: "fusion_inv h0 s2" unfolding s2_def by (rule write_inv[OF inv1]) simp
  have inv3: "fusion_inv h0 s3" unfolding s3_def by (rule write_inv[OF inv2]) simp
  have inv4: "fusion_inv h0 s4" unfolding s4_def by (rule write_inv[OF inv3]) simp
  have md2: "doc_metadata s2 = doc_metadata s1" by (simp add: s2_def)
  have md3: "doc_metadata s3 = doc_metadata s1" by (simp add: s3_def md2)
  have md4: "doc_metadata s4 = doc_metadata s1" by (simp add: s4_def md3)
  have a1: "annotate x ''fuzzy_rank'' (Num (of_nat rank)) s1 = (None, s2)"
    using reg by (simp add: annotate_def s2_def)
  have a2: "annotate x ''fuzzy_score'' (dict_get (heap s2 r) ''score'' (Num 0)) s2 = (None, s3)"
    using reg md2 by (simp add: annotate_def s3_def v_def)
  have a3: "annotate x ''fuzzy_type'' (dict_get (heap s3 r) ''type'' (Str [])) s3 = (None, s4)"
    using reg md3 by (simp add: annotate_def s4_def t_def)
  have sc: "rrf_score w ''fuzzy'' k rank = Inr (contribution wt k rank)"
    by (rule rrf_score_ok[OF w k b])
  have run: "fuzzy_step w k rank r s = (None, s4)"
    unfolding fuzzy_step_def using idr sc acc reg a1 a2 a3
    by (simp add: dict_index_def and_then_def)
  have h4: "heap s4 = (heap s)(m := dict_set (dict_set (dict_set (heap s m)
                                      ''fuzzy_rank'' (Num (of_nat rank))) ''fuzzy_score'' v)
                                      ''fuzzy_type'' t)"
    by (simp add: s4_def s3_def s2_def heap1)
  have sc4: "doc_scores s4 = doc_scores s1" by (simp add: s4_def s3_def s2_def)
  have reg4: "map_of (doc_metadata s4) x = Some m" using reg md4 by simp
  show ?thesis
    using run inv4 sc4 md4 reg4 h4 unfolding s1_def by blast
qed

lemma scored_add_contribution:
  "doc_scores s' = doc_scores (add_contribution x r c s) \<Longrightarrow> scored s x c s'"
  by (simp add: scored_def add_contribution_scores_keys add_contribution_score)

lemma vector_step_ok:
  assumes "fusion_inv h0 s" "map_of (h0 r) ''doc_id'' = Some x" "hashable x"
    "map_of w ''vector'' = Some wt" "0 \<le> k" "k + int rank + 1 < overflow_threshold"
  shows "\<exists>s'. vector_step w k rank r s = (None, s') \<and> fusion_inv h0 s' \<and>
           scored s x (contribution wt k rank) s'"
proof -
  from vector_step_run[OF assms] obtain s' where
    "vector_step w k rank r s = (None, s')" "fusion_inv h0 s'"
    "doc_scores s' = doc_scores (add_contribution x r (contribution wt k rank) s)"
    by blast
  then show ?thesis using scored_add_contribution by blast
qed

lemma fuzzy_step_ok:
  assumes "fusion_inv h0 s" "map_of (h0 r) ''doc_id'' = Some x" "hashable x"
    "map_of w ''fuzzy'' = Some wt" "0 \<le> k" "k + int rank + 1 < overflow_threshold"
  shows "\<exists>s'. fuzzy_step w k rank r s = (None, s') \<and> fusion_inv h0 s' \<and>
           scored s x (contribution wt k rank) s'"
proof -
  from fuzzy_step_run[OF assms] obtain s' where
    "fuzzy_step w k rank r s = (None, s')" "fusion_inv h0 s'"
    "doc_scores s' = doc_scores (add_contribution x r (contribution wt k rank) s)"
    by blast
  then show ?thesis using scored_add_contribution by blast
qed

lemma contributions_Nil: "contributions h w k rank [] d = []"
  by (simp add: contributions_def)

lemma contributions_Cons:
  "contributions h w k rank (r # rs) d =
     (if map_of (h r) ''doc_id'' = Some d then [contribution w k rank] else [])
     @ contributions h w k (Suc rank) rs d"
  by (simp add: contributions_def)

lemma rank_loop_ok:
  assumes step: "\<And>s r rank x. fusion_inv h0 s \<Longrightarrow> map_of (h0 r) ''doc_id'' = Some x \<Longrightarrow> hashable x \<Longrightarrow>
      k + int rank + 1 < overflow_threshold \<Longrightarrow>
      \<exists>s'. step rank r s = (None, s') \<and> fusion_inv h0 s' \<and> scored s x (contribution wt k rank) s'"
    and ids: "\<forall>r\<in>set rs. well_formed h0 r"
    and bound: "k + int rank + int (length rs) < overflow_threshold"
    and inv: "fusion_inv h0 s"
  shows "\<exists>s'. rank_loop step rank rs s = (None, s') \<and> fusion_inv h0 s' \<and>
           Some ` set (map fst (doc_scores s')) =
             Some ` set (map fst (doc_scores s)) \<union> (\<lambda>r. map_of (h0 r) ''doc_id'') ` set rs \<and>
           (\<forall>d. dict_get (doc_scores s') d (Finite 0) =
                 foldl float_add (dict_get (doc_scores s) d (Finite 0)) (contributions h0 wt k rank rs d))"
  using ids bound inv
proof (induction rs arbitrary: s rank)
  case Nil
  then show ?case by (simp add: contributions_Nil)
next
  case (Cons r rs)
  from Cons.prems(1) obtain x where x: "map_of (h0 r) ''doc_id'' = Some x" and hx: "hashable x"
    using well_formedD[of h0 r] by auto
  have b1: "k + int rank + 1 < overflow_threshold" using Cons.prems(2) by simp
  from step[OF Cons.prems(3) x hx b1] obtain s1 where s1run: "step rank r s = (None, s1)"
    and s1inv: "fusion_inv h0 s1" and s1sc: "scored s x (contribution wt k rank) s1"
    by blast
  have s1keys: "map fst (doc_scores s1) =
       (if map_of (doc_scores s) x = None then map fst (doc_scores s) @ [x] else map fst (doc_scores s))"
    using s1sc by (simp add: scored_def)
  have s1val: "\<And>d. dict_get (doc_scores s1) d (Finite 0) =
           (if d = x then float_add (dict_get (doc_scores s) d (Finite 0)) (contribution wt k rank)
            else dict_get (doc_scores s) d (Finite 0))"
    using s1sc by (simp add: scored_def)
  have ids': "\<forall>r\<in>set rs. well_formed h0 r" using Cons.prems(1) by simp
  have b2: "k + int (Suc rank) + int (length rs) < overflow_threshold" using Cons.prems(2) by simp
  from Cons.IH[OF ids' b2 s1inv] obtain s2 where
    s2run: "rank_loop step (Suc rank) rs s1 = (None, s2)" and s2inv: "fusion_inv h0 s2"
    and s2keys: "Some ` set (map fst (doc_scores s2)) =
       Some ` set (map fst (doc_scores s1)) \<union> (\<lambda>r. map_of (h0 r) ''doc_id'') ` set rs"
    and s2val: "\<forall>d. dict_get (doc_scores s2) d (Finite 0) =
          foldl float_add (dict_get (doc_scores s1) d (Finite 0)) (contributions h0 wt k (Suc rank) rs d)"
    by blast
  have run: "rank_loop step rank (r # rs) s = (None, s2)"
    using s1run s2run by simp
  have keys1: "set (map fst (doc_scores s1)) = insert x (set (map fst (doc_scores s)))"
    using s1keys by (auto simp: map_of_eq_None_iff)
  have keys: "Some ` set (map fst (doc_scores s2)) =
       Some ` set (map fst (doc_scores s)) \<union> (\<lambda>r. map_of (h0 r) ''doc_id'') ` set (r # rs)"
    using s2keys keys1 x by auto
  have sc: "\<forall>d. dict_get (doc_scores s2) d (Finite 0) =
          foldl float_add (dict_get (doc_scores s) d (Finite 0)) (contributions h0 wt k rank (r # rs) d)"
  proof
    fix d
    show "dict_get (doc_scores s2) d (Finite 0) =
          foldl float_add (dict_get (doc_scores s) d (Finite 0)) (contributions h0 wt k rank (r # rs) d)"
      using s2val[rule_format, of d] s1val[of d] x by (simp add: contributions_Cons)
  qed
  show ?case using run s2inv keys sc by blast
qed

lemma final_loop_ok:
  assumes inv: "fusion_inv h0 s" and sub: "fst ` set xs \<subseteq> fst ` set (doc_scores s)"
  shows "\<exists>out. final_loop xs s = Inr out \<and>
           map (\<lambda>r. (map_of r ''doc_id'', map_of r ''fused_score'')) out =
             map (\<lambda>x. (Some (Val (fst x)), Some (Score (snd x)))) xs"
  using sub
proof (induction xs)
  case Nil
  then show ?case by simp
next
  case (Cons a xs)
  obtain d sc where a: "a = (d, sc)" by (cases a)
  have "d \<in> fst ` set (doc_metadata s)"
    using Cons.prems a inv_keys[OF inv] by (metis fst_conv insert_subset list.set(2) image_insert set_map)
  then obtain m where m: "map_of (doc_metadata s) d = Some m"
    by (metis map_of_eq_None_iff not_None_eq)
  have idm: "map_of (heap s m) ''doc_id'' = Some d" by (rule inv_meta[OF inv m])
  from Cons obtain out where out: "final_loop xs s = Inr out"
     "map (\<lambda>r. (map_of r ''doc_id'', map_of r ''fused_score'')) out =
        map (\<lambda>x. (Some (Val (fst x)), Some (Score (snd x)))) xs"
    by auto
  show ?case
    using a m idm out by (simp add: map_of_dict_set map_of_copy_record)
qed

lemma py_sorted_floats_desc_set: "set (py_sorted_floats_desc f xs) = set xs"
  by (simp add: py_sorted_floats_desc_def)

lemma py_sorted_floats_desc_sorted:
  "sorted_wrt (\<lambda>a b. float_ge (f a) (f b)) (py_sorted_floats_desc f xs)"
proof -
  have "sorted (map (\<lambda>x. desc_key (f x)) (sort_key (\<lambda>x. desc_key (f x)) xs))"
    by (rule sorted_sort_key)
  then show ?thesis
    by (simp add: py_sorted_floats_desc_def sorted_wrt_map float_ge_def)
qed

lemma distinct_map_insort_key:
  "distinct (map g (insort_key f x xs)) = (g x \<notin> g ` set xs \<and> distinct (map g xs))"
  by (induction xs) (auto simp: set_insort_key)

lemma py_sorted_floats_desc_distinct_keys:
  "distinct (map g (py_sorted_floats_desc f xs)) = distinct (map g xs)"
  unfolding py_sorted_floats_desc_def
  by (induction xs) (simp_all add: distinct_map_insort_key)

lemma distinct_map_inj: "inj g \<Longrightarrow> distinct (map (\<lambda>x. g (f x)) xs) = distinct (map f xs)"
  by (induction xs) (auto dest: injD)

lemma strategy_loop:
  assumes step: "\<And>s r rank x. fusion_inv h0 s \<Longrightarrow> map_of (h0 r) ''doc_id'' = Some x \<Longrightarrow> hashable x \<Longrightarrow>
      k + int rank + 1 < overflow_threshold \<Longrightarrow>
      \<exists>s'. step rank r s = (None, s') \<and> fusion_inv h0 s' \<and> scored s x (contribution wt k rank) s'"
    and ids: "\<forall>r\<in>set rs. well_formed h0 r"
    and bound: "k + int (length rs) < overflow_threshold"
    and inv: "fusion_inv h0 s"
  shows "\<exists>s'. rank_loop step 0 rs s = (None, s') \<and> fusion_inv h0 s' \<and>
           Some ` set (map fst (doc_scores s')) =
             Some ` set (map fst (doc_scores s)) \<union> (\<lambda>r. map_of (h0 r) ''doc_id'') ` set rs \<and>
           (\<forall>d. dict_get (doc_scores s') d (Finite 0) =
                 foldl float_add (dict_get (doc_scores s) d (Finite 0)) (contributions h0 wt k 0 rs d))"
  using rank_loop_ok[of h0 k step wt rs 0 s, OF step ids _ inv] bound by simp


lemma fuse_results_general:
  assumes ids: "\<forall>r\<in>set (vector_results @ fuzzy_results). well_formed h r"
    and wv: "map_of weights ''vector'' = Some w_vec"
    and wf: "map_of weights ''fuzzy'' = Some w_fuz"
    and k: "0 \<le> k"
    and bound: "k + int (max (length vector_results) (length fuzzy_results)) < overflow_threshold"
  shows "\<exists>out. fst (fuse_results k vector_results fuzzy_results (Some weights) h) = Inr out \<and>
           distinct (map (\<lambda>r. map_of r ''doc_id'') out) \<and>
           set (map (\<lambda>r. map_of r ''doc_id'') out) =
             (\<lambda>r. map_option Val (map_of (h r) ''doc_id'')) ` set (vector_results @ fuzzy_results) \<and>
           (\<forall>r\<in>set out. \<forall>d. map_of r ''doc_id'' = Some (Val d) \<longrightarrow>
              map_of r ''fused_score'' =
                Some (Score (float_total h w_vec w_fuz k vector_results fuzzy_results d))) \<and>
           sorted_wrt (\<lambda>a b. float_ge (fused_score_of a) (fused_score_of b)) out"
proof -
  let ?s0 = "\<lparr>doc_scores = [], doc_metadata = [], heap = h\<rparr>"
  have inv0: "fusion_inv h ?s0" by (rule inv_init)
  have idv: "\<forall>r\<in>set vector_results. well_formed h r" using ids by simp
  have idf: "\<forall>r\<in>set fuzzy_results. well_formed h r" using ids by simp
  have bv: "k + int (length vector_results) < overflow_threshold" using bound by simp
  have bf: "k + int (length fuzzy_results) < overflow_threshold" using bound by simp
  obtain s1 where s1: "rank_loop (vector_step weights k) 0 vector_results ?s0 = (None, s1)"
      "fusion_inv h s1"
      "Some ` set (map fst (doc_scores s1)) =
         Some ` set (map fst (doc_scores ?s0)) \<union> (\<lambda>r. map_of (h r) ''doc_id'') ` set vector_results"
      "\<forall>d. dict_get (doc_scores s1) d (Finite 0) =
           foldl float_add (dict_get (doc_scores ?s0) d (Finite 0)) (contributions h w_vec k 0 vector_results d)"
    using strategy_loop[of h k "vector_step weights k" w_vec vector_results ?s0,
            OF vector_step_ok[OF _ _ _ wv k] idv bv inv0]
    by blast
  obtain s2 where s2: "rank_loop (fuzzy_step weights k) 0 fuzzy_results s1 = (None, s2)"
      "fusion_inv h s2"
      "Some ` set (map fst (doc_scores s2)) =
         Some ` set (map fst (doc_scores s1)) \<union> (\<lambda>r. map_of (h r) ''doc_id'') ` set fuzzy_results"
      "\<forall>d. dict_get (doc_scores s2) d (Finite 0) =
           foldl float_add (dict_get (doc_scores s1) d (Finite 0)) (contributions h w_fuz k 0 fuzzy_results d)"
    using strategy_loop[of h k "fuzzy_step weights k" w_fuz fuzzy_results s1,
            OF fuzzy_step_ok[OF _ _ _ wf k] idf bf s1(2)]
    by blast
  have total: "\<And>d. dict_get (doc_scores s2) d (Finite 0) =
      float_total h w_vec w_fuz k vector_results fuzzy_results d"
    using s1(4) s2(4) by (simp add: float_total_def dict_get_def)
  let ?xs = "py_sorted_floats_desc snd (doc_scores s2)"
  obtain out where out: "final_loop ?xs s2 = Inr out"
      "map (\<lambda>r. (map_of r ''doc_id'', map_of r ''fused_score'')) out =
         map (\<lambda>x. (Some (Val (fst x)), Some (Score (snd x)))) ?xs"
    using final_loop_ok[OF s2(2), of ?xs] by (auto simp: py_sorted_floats_desc_set)
  have run: "fst (fuse_results k vector_results fuzzy_results (Some weights) h) = Inr out"
    using s1(1) s2(1) out(1) by (simp add: fuse_results_def)
  have ids_out: "map (\<lambda>r. map_of r ''doc_id'') out = map (\<lambda>x. Some (Val (fst x))) ?xs"
    using arg_cong[OF out(2), of "map fst"] by (simp add: comp_def)
  have sc_out: "map (\<lambda>r. map_of r ''fused_score'') out = map (\<lambda>x. Some (Score (snd x))) ?xs"
    using arg_cong[OF out(2), of "map snd"] by (simp add: comp_def)
  have fs_out: "map fused_score_of out = map snd ?xs"
  proof -
    have "map fused_score_of out =
        map (\<lambda>v. case v of Some (Score x) \<Rightarrow> x | _ \<Rightarrow> Finite 0) (map (\<lambda>r. map_of r ''fused_score'') out)"
      by (simp add: fused_score_of_def comp_def)
    also have "\<dots> = map snd ?xs" unfolding sc_out by (simp add: comp_def)
    finally show ?thesis .
  qed
  have dist: "distinct (map (\<lambda>r. map_of r ''doc_id'') out)"
  proof -
    have "distinct (map fst ?xs)"
      using inv_distinct[OF s2(2)] by (simp add: py_sorted_floats_desc_distinct_keys)
    moreover have "inj (\<lambda>d. Some (Val d))" by (simp add: inj_def)
    ultimately show ?thesis
      unfolding ids_out using distinct_map_inj[of "\<lambda>d. Some (Val d)" fst ?xs] by simp
  qed
  have keys: "set (map (\<lambda>r. map_of r ''doc_id'') out) =
             (\<lambda>r. map_option Val (map_of (h r) ''doc_id'')) ` set (vector_results @ fuzzy_results)"
  proof -
    have a: "set (map (\<lambda>r. map_of r ''doc_id'') out) =
        map_option Val ` Some ` set (map fst (doc_scores s2))"
      unfolding ids_out by (simp add: py_sorted_floats_desc_set image_image)
    have b: "Some ` set (map fst (doc_scores s2)) =
        (\<lambda>r. map_of (h r) ''doc_id'') ` set (vector_results @ fuzzy_results)"
      using s1(3) s2(3) by (simp add: image_Un Un_commute)
    show ?thesis unfolding a b by (simp add: image_image)
  qed
  have scores: "\<forall>r\<in>set out. \<forall>d. map_of r ''doc_id'' = Some (Val d) \<longrightarrow>
              map_of r ''fused_score'' =
                Some (Score (float_total h w_vec w_fuz k vector_results fuzzy_results d))"
  proof (intro ballI allI impI)
    fix r d assume r: "r \<in> set out" and d: "map_of r ''doc_id'' = Some (Val d)"
    from r have "(map_of r ''doc_id'', map_of r ''fused_score'') \<in>
        set (map (\<lambda>r. (map_of r ''doc_id'', map_of r ''fused_score'')) out)" by auto
    then obtain x where x: "x \<in> set ?xs" "map_of r ''doc_id'' = Some (Val (fst x))"
        "map_of r ''fused_score'' = Some (Score (snd x))"
      unfolding out(2) by auto
    from x(1) have "(fst x, snd x) \<in> set (doc_scores s2)" by (simp add: py_sorted_floats_desc_set)
    then have "map_of (doc_scores s2) (fst x) = Some (snd x)"
      using inv_distinct[OF s2(2)] by simp
    moreover have "fst x = d" using x(2) d by simp
    ultimately have "dict_get (doc_scores s2) d (Finite 0) = snd x"
      by (simp add: dict_get_def)
    then show "map_of r ''fused_score'' =
                Some (Score (float_total h w_vec w_fuz k vector_results fuzzy_results d))"
      using x(3) total[of d] by simp
  qed
  have srt: "sorted_wrt (\<lambda>a b. float_ge (fused_score_of a) (fused_score_of b)) out"
  proof -
    have "sorted_wrt (\<lambda>a b. float_ge a b) (map snd ?xs)"
      using py_sorted_floats_desc_sorted[of snd "doc_scores s2"] by (simp add: sorted_wrt_map)
    then have "sorted_wrt (\<lambda>a b. float_ge a b) (map fused_score_of out)"
      unfolding fs_out .
    then show ?thesis by (simp add: sorted_wrt_map)
  qed
  show ?thesis using run dist keys scores srt by blast
qed

lemma default_weights_double:
  "is_double (5404319552844595 / 9007199254740992) \<and> is_double (3602879701896397 / 9007199254740992)"
  by code_simp

lemma small_bound: "(60::int) + int (max (length [0::nat, 1]) (length [2::nat, 3])) < overflow_threshold"
  by (simp add: overflow_threshold_def)

lemma default_vector_scores:
  "rrf_score default_weights ''vector'' 60 0 = Inr (2835052880180771 / 288230376151711744)"
  "rrf_score default_weights ''vector'' 60 (Suc 0) = Inr (2789326220823017 / 288230376151711744)"
  by code_simp+

lemma default_fuzzy_scores:
  "rrf_score default_weights ''fuzzy'' 60 0 = Inr (3780070506907695 / 576460752303423488)"
  "rrf_score default_weights ''fuzzy'' 60 (Suc 0) = Inr (7438203255528045 / 1152921504606846976)"
  by code_simp+

lemma example_sums:
  "float_add (Finite 0) (2835052880180771 / 288230376151711744) =
     Finite (2835052880180771 / 288230376151711744)"
  "float_add (Finite 0) (2789326220823017 / 288230376151711744) =
     Finite (2789326220823017 / 288230376151711744)"
  "float_add (Finite (2789326220823017 / 288230376151711744)) (3780070506907695 / 576460752303423488) =
     Finite (9139377879447 / 562949953421312)"
  "float_add (Finite 0) (7438203255528045 / 1152921504606846976) =
     Finite (7438203255528045 / 1152921504606846976)"
  by code_simp+

lemmas fuse_run = fuse_results_def vector_step_def fuzzy_step_def
  dict_index_def accumulate_def add_contribution_def annotate_def and_then_def dict_get_def
  py_sorted_floats_desc_def Let_def map_of_dict_set

lemma example_order:
  "\<exists>out. fst (fuse_results 60 [0, 1] [2, 3] (Some default_weights) example_store) = Inr out \<and>
      map (\<lambda>r. map_of r ''doc_id'') out =
        [Some (Val (Str ''d2'')), Some (Val (Str ''d1'')), Some (Val (Str ''d3''))]"
  by (simp add: fuse_run example_store_def default_vector_scores default_fuzzy_scores example_sums
        map_of_copy_record del: float_add.simps)


lemma tie_scores:
  "rrf_score half_weights ''vector'' 1152921504606846976 0 = Inr (1 / 2305843009213693952)"
  "rrf_score half_weights ''vector'' 1152921504606846976 (Suc 0) = Inr (1 / 2305843009213693952)"
  "rrf_score half_weights ''fuzzy'' 1152921504606846976 0 = Inr (1 / 2305843009213693952)"
  by code_simp+

lemma tie_sums:
  "float_add (Finite 0) (1 / 2305843009213693952) = Finite (1 / 2305843009213693952)"
  by code_simp

text \<open>
  C2, as stated, fails: the totals are computed in double precision, not exactly. With
  \<open>k = 2 ^ 60\<close> the denominators \<open>k + 1\<close> and \<open>k + 2\<close> become the same float, the three items
  of the vector list (x, b) and the fuzzy list (a) get the same computed total and come
  out in the order x, b, a, although the exact total of b is smaller than that of a.
\<close>

theorem fuse_results_exact_order_counterexample:
  "(\<exists>out. fst (fuse_results 1152921504606846976 [0, 1] [2] (Some half_weights) tie_store) = Inr out \<and>
      map (\<lambda>r. map_of r ''doc_id'') out =
        [Some (Val (Str ''x'')), Some (Val (Str ''b'')), Some (Val (Str ''a''))] \<and>
      map fused_score_of out =
        [Finite (1 / 2305843009213693952), Finite (1 / 2305843009213693952),
         Finite (1 / 2305843009213693952)]) \<and>
   rank_share tie_store (1 / 2) 1152921504606846976 [0, 1] (Str ''b'') +
   rank_share tie_store (1 / 2) 1152921504606846976 [2] (Str ''b'')
     < rank_share tie_store (1 / 2) 1152921504606846976 [0, 1] (Str ''a'') +
       rank_share tie_store (1 / 2) 1152921504606846976 [2] (Str ''a'')"
  by (simp add: fuse_run tie_store_def tie_scores tie_sums map_of_copy_record fused_score_of_def
        rank_share_def del: float_add.simps)

text \<open>
  C2, amended: with both weights present (floats), a non-negative \<open>k\<close> whose largest
  denominator converts to a float, and a hashable \<open>doc_id\<close> in every record,
  \<open>fuse_results\<close> returns one record per distinct \<open>doc_id\<close> of the two lists. The
  \<open>fused_score\<close> of the record of item \<open>d\<close> is the total computed in double precision:
  every contribution \<open>weights[s] / (k + rank + 1)\<close> is the rounded quotient of the weight
  by the float of the denominator, and the contributions of \<open>d\<close> (vector list first, then
  fuzzy list, each in list order) are added one by one to 0, every sum rounded. The
  records come sorted by descending computed total. For the vector list (d1, d2), the fuzzy
  list (d2, d3), weights 0.6 and 0.4 and \<open>k = 60\<close> the fused order is d2, d1, d3.
\<close>

theorem fuse_results_rrf_float:
  "((\<forall>r\<in>set (vector_results @ fuzzy_results). well_formed h r) \<and>
    map_of weights ''vector'' = Some w_vec \<and> map_of weights ''fuzzy'' = Some w_fuz \<and>
    is_double w_vec \<and> is_double w_fuz \<and> 0 \<le> k \<and>
    k + int (max (length vector_results) (length fuzzy_results)) < overflow_threshold \<longrightarrow>
    (\<exists>out. fst (fuse_results k vector_results fuzzy_results (Some weights) h) = Inr out \<and>
           distinct (map (\<lambda>r. map_of r ''doc_id'') out) \<and>
           set (map (\<lambda>r. map_of r ''doc_id'') out) =
             (\<lambda>r. map_option Val (map_of (h r) ''doc_id'')) ` set (vector_results @ fuzzy_results) \<and>
           (\<forall>r\<in>set out. \<forall>d. map_of r ''doc_id'' = Some (Val d) \<longrightarrow>
              map_of r ''fused_score'' =
                Some (Score (float_total h w_vec w_fuz k vector_results fuzzy_results d))) \<and>
           sorted_wrt (\<lambda>a b. float_ge (fused_score_of a) (fused_score_of b)) out)) \<and>
   (\<exists>out. fst (fuse_results 60 [0, 1] [2, 3] (Some default_weights) example_store) = Inr out \<and>
          map (\<lambda>r. map_of r ''doc_id'') out =
            [Some (Val (Str ''d2'')), Some (Val (Str ''d1'')), Some (Val (Str ''d3''))])"
proof (intro conjI impI)
  assume "(\<forall>r\<in>set (vector_results @ fuzzy_results). well_formed h r) \<and>
    map_of weights ''vector'' = Some w_vec \<and> map_of weights ''fuzzy'' = Some w_fuz \<and>
    is_double w_vec \<and> is_double w_fuz \<and> 0 \<le> k \<and>
    k + int (max (length vector_results) (length fuzzy_results)) < overflow_threshold"
  then show "\<exists>out. fst (fuse_results k vector_results fuzzy_results (Some weights) h) = Inr out \<and>
           distinct (map (\<lambda>r. map_of r ''doc_id'') out) \<and>
           set (map (\<lambda>r. map_of r ''doc_id'') out) =
             (\<lambda>r. map_option Val (map_of (h r) ''doc_id'')) ` set (vector_results @ fuzzy_results) \<and>
           (\<forall>r\<in>set out. \<forall>d. map_of r ''doc_id'' = Some (Val d) \<longrightarrow>
              map_of r ''fused_score'' =
                Some (Score (float_total h w_vec w_fuz k vector_results fuzzy_results d))) \<and>
           sorted_wrt (\<lambda>a b. float_ge (fused_score_of a) (fused_score_of b)) out"
    using fuse_results_general[of vector_results fuzzy_results h weights w_vec w_fuz k] by blast
next
  show "\<exists>out. fst (fuse_results 60 [0, 1] [2, 3] (Some default_weights) example_store) = Inr out \<and>
          map (\<lambda>r. map_of r ''doc_id'') out =
            [Some (Val (Str ''d2'')), Some (Val (Str ''d1'')), Some (Val (Str ''d3''))]"
    by (rule example_order)
qed

theorem fuse_results_rrf_float_witness:
  "map (well_formed example_store) ([0, 1] @ [2, 3]) = [True, True, True, True] \<and>
   map_of default_weights ''vector'' = Some (5404319552844595 / 9007199254740992) \<and>
   map_of default_weights ''fuzzy'' = Some (3602879701896397 / 9007199254740992) \<and>
   is_double (5404319552844595 / 9007199254740992) \<and>
   is_double (3602879701896397 / 9007199254740992) \<and> (0::int) \<le> 60 \<and>
   60 + int (max (length [0::nat, 1]) (length [2::nat, 3])) < overflow_threshold \<and>
   (\<exists>out. fst (fuse_results 60 [0, 1] [2, 3] (Some default_weights) example_store) = Inr out \<and>
      (\<forall>r\<in>set out. \<forall>d. map_of r ''doc_id'' = Some (Val d) \<longrightarrow>
         map_of r ''fused_score'' =
           Some (Score (float_total example_store (5404319552844595 / 9007199254740992)
                          (3602879701896397 / 9007199254740992) 60 [0, 1] [2, 3] d))) \<and>
      sorted_wrt (\<lambda>a b. float_ge (fused_score_of a) (fused_score_of b)) out)"
proof -
  have ids: "map (well_formed example_store) ([0, 1] @ [2, 3]) = [True, True, True, True]"
    by (simp add: example_store_def well_formed_def)
  have ids': "\<forall>r\<in>set ([0, 1] @ [2, 3]). well_formed example_store r"
    by (simp add: example_store_def well_formed_def)
  have w: "map_of default_weights ''vector'' = Some (5404319552844595 / 9007199254740992) \<and>
     map_of default_weights ''fuzzy'' = Some (3602879701896397 / 9007199254740992)"
    by (simp add: default_weights_def)
  have b: "(0::int) \<le> 60 \<and>
     60 + int (max (length [0::nat, 1]) (length [2::nat, 3])) < overflow_threshold"
    using small_bound by simp
  note T = fuse_results_rrf_float[of "[0, 1]" "[2, 3]" example_store default_weights
      "5404319552844595 / 9007199254740992" "3602879701896397 / 9007199254740992" 60]
  have c: "\<exists>out. fst (fuse_results 60 [0, 1] [2, 3] (Some default_weights) example_store) = Inr out \<and>
      (\<forall>r\<in>set out. \<forall>d. map_of r ''doc_id'' = Some (Val d) \<longrightarrow>
         map_of r ''fused_score'' =
           Some (Score (float_total example_store (5404319552844595 / 9007199254740992)
                          (3602879701896397 / 9007199254740992) 60 [0, 1] [2, 3] d))) \<and>
      sorted_wrt (\<lambda>a b. float_ge (fused_score_of a) (fused_score_of b)) out"
    using T ids' w default_weights_double b by blast
  show ?thesis
    using ids w default_weights_double b c by blast
qed

text \<open>
  C6: the fusion is not free of effects on its arguments. The loops store the caller's
  record itself in \<open>doc_metadata\<close> and write \<open>vector_rank\<close> and \<open>vector_score\<close>
  through it, so after the call the caller's record of d1 has two more fields. Only the
  last loop works on a copy.
\<close>

theorem fuse_results_mutates_input:
  "example_store 0 = [(''doc_id'', Str ''d1''), (''score'', Num (9 / 10))] \<and>
   snd (fuse_results 60 [0] [] None example_store) 0 =
     [(''doc_id'', Str ''d1''), (''score'', Num (9 / 10)),
      (''vector_rank'', Num 0), (''vector_score'', Num (9 / 10))]"
  by (simp add: fuse_run example_store_def default_vector_scores del: float_add.simps)







section \<open>Properties of the graph memory\<close>

text \<open>
  C3, as stated, fails: on the graph holding only node \<open>a\<close>, the call
  \<open>add_edge("a", "missing_node", "similarity", 0.5)\<close> raises nothing; it returns \<open>False\<close>.
\<close>

theorem add_edge_unknown_node_counterexample:
  "has_node graph_a ''a'' \<and> \<not> has_node graph_a ''missing_node'' \<and>
   add_edge ''t1'' ''a'' ''missing_node'' ''similarity'' (1 / 2) None graph_a = (Inr False, graph_a)"
  by (simp add: add_edge_def add_edge_body_def try_except_def has_node_def graph_a_def)

text \<open>
  C3, amended: for every graph state, inserting an edge whose source or target is not a
  node of the graph returns \<open>False\<close> (no exception is raised) and leaves the whole
  graph, so its node count and its edge count, unchanged.
\<close>

theorem add_edge_unknown_node:
  "\<not> has_node g source \<or> \<not> has_node g target \<longrightarrow>
     add_edge now source target edge_type weight metadata g = (Inr False, g) \<and>
     number_of_nodes (snd (add_edge now source target edge_type weight metadata g)) = number_of_nodes g \<and>
     number_of_edges (snd (add_edge now source target edge_type weight metadata g)) = number_of_edges g"
  by (simp add: add_edge_def add_edge_body_def try_except_def)

theorem add_edge_unknown_node_witness:
  "\<not> has_node graph_a ''missing_node'' \<and>
   add_edge ''t1'' ''a'' ''missing_node'' ''similarity'' (1 / 2) None graph_a = (Inr False, graph_a) \<and>
   number_of_nodes (snd (add_edge ''t1'' ''a'' ''missing_node'' ''similarity'' (1 / 2) None graph_a)) = 1 \<and>
   number_of_edges (snd (add_edge ''t1'' ''a'' ''missing_node'' ''similarity'' (1 / 2) None graph_a)) = 0"
proof -
  have h: "\<not> has_node graph_a ''missing_node''"
    by (simp add: has_node_def graph_a_def)
  have n: "number_of_nodes graph_a = 1" "number_of_edges graph_a = 0"
    by (simp_all add: number_of_nodes_def number_of_edges_def graph_a_def)
  show ?thesis
    using h n add_edge_unknown_node[of graph_a "''a''" "''missing_node''" "''t1''" "''similarity''" "1 / 2" None]
    by simp
qed

lemma map_of_dict_update:
  "map_of (dict_update d other) k =
     (case map_of (rev other) k of None \<Rightarrow> map_of d k | Some v \<Rightarrow> Some v)"
  unfolding dict_update_def
proof (induction other arbitrary: d)
  case Nil
  then show ?case by simp
next
  case (Cons a other)
  then show ?case
    by (cases a) (auto simp: map_of_dict_set map_add_def split: option.splits)
qed

lemma keys_dict_set_present:
  "map_of d k \<noteq> None \<Longrightarrow> map fst (dict_set d k v) = map fst d"
  by (simp add: keys_dict_set)

lemma visual_keys:
  "map_of node_types t = Some visual \<Longrightarrow> visual = [(''color'', dict_get visual ''color'' (Str [])), (''shape'', dict_get visual ''shape'' (Str []))]"
  by (auto simp: node_types_def dict_get_def split: if_splits)

text \<open>
  C9, as stated, fails: a node inserted at time t1 and inserted again at time t2 carries
  \<open>created_at = t2\<close>.
\<close>

theorem add_node_again_counterexample:
  "node_attr (snd (add_node (\<lambda>_. 0) ''t1'' ''n'' ''document'' (Str ''old'') None None empty_graph))
       ''n'' ''created_at'' = Some (Str ''t1'') \<and>
   node_attr (snd (add_node (\<lambda>_. 0) ''t2'' ''n'' ''document'' (Str ''new'') None None
        (snd (add_node (\<lambda>_. 0) ''t1'' ''n'' ''document'' (Str ''old'') None None empty_graph))))
       ''n'' ''created_at'' = Some (Str ''t2'')"
  by (simp add: add_node_def add_node_body_def try_except_def node_attr_def empty_graph_def
        nx_add_node_def node_attrs_def node_types_def dict_update_def dict_get_def Let_def)

lemma node_attrs_written:
  "map_of (rev (node_attrs hash now node_type content metadata)) ''content'' = Some content \<and>
   map_of (rev (node_attrs hash now node_type content metadata)) ''created_at'' = Some (Str now) \<and>
   map_of (rev (node_attrs hash now node_type content metadata)) ''type'' = Some (Str node_type)"
proof (cases "map_of node_types node_type")
  case None
  then show ?thesis by (simp add: node_attrs_def)
next
  case (Some visual)
  obtain a b where "visual = [(''color'', a), (''shape'', b)]"
    using visual_keys[OF Some] by blast
  then show ?thesis using Some by (simp add: node_attrs_def dict_update_def)
qed

lemma add_node_run:
  assumes "hashable content"
  shows "fst (add_node hash now node_id node_type content metadata embedding g) = Inr True"
    and "nodes (snd (add_node hash now node_id node_type content metadata embedding g)) =
           nodes (nx_add_node node_id (node_attrs hash now node_type content metadata) g)"
    and "edges (snd (add_node hash now node_id node_type content metadata embedding g)) = edges g"
  using assms
  by (cases embedding; simp add: add_node_def add_node_body_def try_except_def Let_def nx_add_node_def)+

text \<open>
  C9, amended: calling \<open>add_node\<close> again with the id of a node of the graph keeps the
  node count, the order of the nodes and the edges, overwrites the node's content and
  type, and also overwrites \<open>created_at\<close> with the time of the second call.
\<close>

theorem add_node_again:
  "has_node g node_id \<and> hashable content \<longrightarrow>
     fst (add_node hash now node_id node_type content metadata embedding g) = Inr True \<and>
     number_of_nodes (snd (add_node hash now node_id node_type content metadata embedding g)) =
       number_of_nodes g \<and>
     map fst (nodes (snd (add_node hash now node_id node_type content metadata embedding g))) =
       map fst (nodes g) \<and>
     edges (snd (add_node hash now node_id node_type content metadata embedding g)) = edges g \<and>
     node_attr (snd (add_node hash now node_id node_type content metadata embedding g))
       node_id ''content'' = Some content \<and>
     node_attr (snd (add_node hash now node_id node_type content metadata embedding g))
       node_id ''type'' = Some (Str node_type) \<and>
     node_attr (snd (add_node hash now node_id node_type content metadata embedding g))
       node_id ''created_at'' = Some (Str now)"
proof (intro impI)
  assume a: "has_node g node_id \<and> hashable content"
  define attrs where "attrs = node_attrs hash now node_type content metadata"
  define g1 where "g1 = nx_add_node node_id attrs g"
  define res where "res = snd (add_node hash now node_id node_type content metadata embedding g)"
  have ok: "fst (add_node hash now node_id node_type content metadata embedding g) = Inr True"
    using a add_node_run(1) by blast
  have n: "nodes res = nodes g1"
    using a add_node_run(2)[of content hash now node_id node_type metadata embedding g]
    by (simp add: res_def g1_def attrs_def)
  have e: "edges res = edges g"
    using a add_node_run(3)[of content hash now node_id node_type metadata embedding g]
    by (simp add: res_def)
  have present: "map_of (nodes g) node_id \<noteq> None" using a by (simp add: has_node_def)
  have keys: "map fst (nodes g1) = map fst (nodes g)"
    using present by (simp add: g1_def nx_add_node_def keys_dict_set)
  have len: "length (nodes g1) = length (nodes g)"
    using arg_cong[OF keys, of length] by simp
  have attr: "\<And>f v. map_of (rev attrs) f = Some v \<Longrightarrow> node_attr g1 node_id f = Some v"
    by (simp add: node_attr_def g1_def nx_add_node_def dict_get_def map_of_dict_set map_of_dict_update)
  have w: "node_attr g1 node_id ''content'' = Some content"
     "node_attr g1 node_id ''created_at'' = Some (Str now)"
     "node_attr g1 node_id ''type'' = Some (Str node_type)"
    using node_attrs_written[of hash now node_type content metadata] attr
    by (simp_all add: attrs_def)
  have w': "node_attr res node_id ''content'' = Some content"
     "node_attr res node_id ''created_at'' = Some (Str now)"
     "node_attr res node_id ''type'' = Some (Str node_type)"
    using w n by (simp_all add: node_attr_def)
  show "fst (add_node hash now node_id node_type content metadata embedding g) = Inr True \<and>
     number_of_nodes (snd (add_node hash now node_id node_type content metadata embedding g)) =
       number_of_nodes g \<and>
     map fst (nodes (snd (add_node hash now node_id node_type content metadata embedding g))) =
       map fst (nodes g) \<and>
     edges (snd (add_node hash now node_id node_type content metadata embedding g)) = edges g \<and>
     node_attr (snd (add_node hash now node_id node_type content metadata embedding g))
       node_id ''content'' = Some content \<and>
     node_attr (snd (add_node hash now node_id node_type content metadata embedding g))
       node_id ''type'' = Some (Str node_type) \<and>
     node_attr (snd (add_node hash now node_id node_type content metadata embedding g))
       node_id ''created_at'' = Some (Str now)"
    using ok n e keys len w' unfolding res_def[symmetric] number_of_nodes_def
    by simp
qed

theorem add_node_again_witness:
  "has_node graph_a ''a'' \<and> hashable (Str ''beta'') \<and>
   number_of_nodes (snd (add_node (\<lambda>_. 0) ''t2'' ''a'' ''document'' (Str ''beta'') None None graph_a)) = 1 \<and>
   node_attr (snd (add_node (\<lambda>_. 0) ''t2'' ''a'' ''document'' (Str ''beta'') None None graph_a))
       ''a'' ''content'' = Some (Str ''beta'') \<and>
   node_attr (snd (add_node (\<lambda>_. 0) ''t2'' ''a'' ''document'' (Str ''beta'') None None graph_a))
       ''a'' ''created_at'' = Some (Str ''t2'')"
proof -
  have h: "has_node graph_a ''a'' \<and> hashable (Str ''beta'')"
    by (simp add: has_node_def graph_a_def)
  have n: "number_of_nodes graph_a = 1"
    by (simp add: number_of_nodes_def graph_a_def)
  show ?thesis
    using h n add_node_again[of graph_a "''a''" "Str ''beta''" "\<lambda>_. 0" "''t2''" "''document''" None None]
    by simp
qed

lemmas walk_eval = reasoning_walk_def reasoning_walk_body_def try_except_value_def has_node_def
  bfs_search_def neighbors_def dict_get_def bfs_result_def pagerank_search_def pagerank_result_def
  shortest_path_search_def nodes_of_type_def shortest_path_result_def dict_index_def
  sort_by_score_def numeric_score_def py_sorted_desc_def composite_score_def

text \<open>
  C5: with \<open>max_steps = 0\<close> and a start node that has the goal type, the walk is not empty.
  The breadth-first strategy skips the start node (\<open>current != start_node\<close>); the
  centrality and shortest-path strategies have no such test and emit the start node at
  distance 0.
\<close>

theorem reasoning_walk_zero_steps_emits_start:
  "bfs_search graph_a ''a'' ''document'' 0 = Inr [] \<and>
   pagerank_search one_node_lib graph_a ''a'' ''document'' 0 =
     [[(''node_id'', Str ''a''), (''pagerank_score'', Num 1), (''path_length'', Num 0),
       (''method'', Str ''pagerank''), (''composite_score'', Num 1)]] \<and>
   shortest_path_search one_node_lib graph_a ''a'' ''document'' 0 =
     [[(''node_id'', Str ''a''), (''path'', Lst [Str ''a'']), (''path_length'', Num 0),
       (''path_weight'', Num 0), (''method'', Str ''shortest_path''), (''composite_score'', Num 0)]] \<and>
   reasoning_walk one_node_lib graph_a [''a''] ''document'' 0 =
     Inr [[(''node_id'', Str ''a''), (''pagerank_score'', Num 1), (''path_length'', Num 0),
           (''method'', Str ''pagerank''), (''composite_score'', Num 1)]]"
  by (simp add: walk_eval graph_a_def one_node_lib_def)

section \<open>Properties of the reasoning walk\<close>

lemma neighbors_are_nodes:
  "targets_exist g \<Longrightarrow> n \<in> set (neighbors g c) \<Longrightarrow> has_node g n"
  by (auto simp: targets_exist_def neighbors_def list_all_iff)

lemma bfs_total:
  "targets_exist g \<Longrightarrow> \<forall>e\<in>set queue. has_node g (fst e) \<Longrightarrow>
     \<exists>out. bfs_loop g start_node goal_type max_steps queue visited results = Inr out"
proof (induction g start_node goal_type max_steps queue visited results rule: bfs_loop.induct)
  case (1 g start_node goal_type max_steps visited results)
  then show ?case by simp
next
  case (2 g start_node goal_type max_steps current depth path queue visited results)
  show ?case
  proof (cases "length results < 10")
    case False
    then show ?thesis by simp
  next
    case lt: True
    show ?thesis
    proof (cases "int depth > max_steps \<or> current \<in> visited")
      case True
      then show ?thesis using 2 lt by simp
    next
      case False
      from "2.prems"(2) obtain attrs where attrs: "map_of (nodes g) current = Some attrs"
        by (auto simp: has_node_def)
      have "\<forall>e\<in>set (queue @ map (\<lambda>neighbor. (neighbor, Suc depth, path @ [current]))
                          (filter (\<lambda>neighbor. neighbor \<notin> insert current visited)
                             (neighbors g current))). has_node g (fst e)"
        using "2.prems" neighbors_are_nodes[of g _ current] by auto
      then show ?thesis
        using "2.IH"(2)[OF _ False attrs "2.prems"(1)] lt False attrs by simp
    qed
  qed
qed

lemma bfs_grow:
  "bfs_loop g start_node goal_type max_steps queue visited results = Inr out \<Longrightarrow>
     set results \<subseteq> set out"
proof (induction g start_node goal_type max_steps queue visited results rule: bfs_loop.induct)
  case (1 g start_node goal_type max_steps visited results)
  then show ?case by simp
next
  case (2 g start_node goal_type max_steps current depth path queue visited results)
  show ?case
  proof (cases "length results < 10")
    case False
    then show ?thesis using "2.prems" by simp
  next
    case lt: True
    show ?thesis
    proof (cases "int depth > max_steps \<or> current \<in> visited")
      case True
      then show ?thesis using 2 lt by simp
    next
      case False
      then obtain attrs where attrs: "map_of (nodes g) current = Some attrs"
        using "2.prems" lt by (cases "map_of (nodes g) current") auto
      show ?thesis
        using "2.IH"(2)[OF _ False attrs] "2.prems" lt False attrs
        by (auto split: if_splits)
    qed
  qed
qed

lemma finite_goal_set: "finite (goal_set g goal_type)"
  by (simp add: goal_set_def)

lemma cap_room:
  assumes "card (goal_set g t) \<le> 10" "goal \<in> goal_set g t" "goal \<notin> visited"
    "length results \<le> card (goal_set g t \<inter> visited)"
  shows "length results < 10"
proof -
  have "goal_set g t \<inter> visited \<subset> goal_set g t" using assms(2,3) by auto
  then have "card (goal_set g t \<inter> visited) < card (goal_set g t)"
    by (intro psubset_card_mono finite_goal_set)
  then show ?thesis using assms(1,4) by simp
qed

lemma cap_step:
  assumes "length results \<le> card (goal_set g t \<inter> visited)" "current \<notin> visited"
    "map_of (nodes g) current = Some attrs"
  shows "length (if dict_get attrs ''type'' (Str '''') = Str t \<and> current \<noteq> start_node
                 then results @ [bfs_result current depth path] else results)
         \<le> card (goal_set g t \<inter> insert current visited)"
proof (cases "dict_get attrs ''type'' (Str '''') = Str t \<and> current \<noteq> start_node")
  case True
  have "current \<in> fst ` set (nodes g)"
    using assms(3) by (metis map_of_eq_None_iff option.distinct(1))
  then have "current \<in> goal_set g t"
    using True assms(3) by (simp add: goal_set_def is_goal_node_def)
  then have "goal_set g t \<inter> insert current visited = insert current (goal_set g t \<inter> visited)"
    by auto
  moreover have "current \<notin> goal_set g t \<inter> visited" using assms(2) by simp
  moreover have "finite (goal_set g t \<inter> visited)" using finite_goal_set by simp
  ultimately have "card (goal_set g t \<inter> insert current visited) = Suc (card (goal_set g t \<inter> visited))"
    by simp
  then show ?thesis using True assms(1) by simp
next
  case False
  have "card (goal_set g t \<inter> visited) \<le> card (goal_set g t \<inter> insert current visited)"
    by (intro card_mono) (auto simp: finite_goal_set)
  then have "length results \<le> card (goal_set g t \<inter> insert current visited)"
    using assms(1) by linarith
  then show ?thesis using False by (simp only: if_False)
qed

lemma bfs_finds_goal:
  "\<lbrakk>targets_exist g; goal \<in> goal_set g goal_type; goal \<noteq> start_node; 2 \<le> max_steps;
    card (goal_set g goal_type) \<le> 10;
    \<forall>e\<in>set queue. has_node g (fst e); goal \<notin> visited;
    \<exists>pre p post. queue = pre @ (goal, 2, p) # post \<and> goal \<notin> fst ` set pre;
    length results \<le> card (goal_set g goal_type \<inter> visited)\<rbrakk>
   \<Longrightarrow> \<exists>out p'. bfs_loop g start_node goal_type max_steps queue visited results = Inr out \<and>
               bfs_result goal 2 p' \<in> set out"
proof (induction g start_node goal_type max_steps queue visited results rule: bfs_loop.induct)
  case (1 g start_node goal_type max_steps visited results)
  then show ?case by simp
next
  case (2 g start_node goal_type max_steps current depth path queue visited results)
  note wf = "2.prems"(1) and gt = "2.prems"(2) and ne = "2.prems"(3) and ms = "2.prems"(4)
    and cap = "2.prems"(5) and qn = "2.prems"(6) and nv = "2.prems"(7) and sp = "2.prems"(8)
    and len = "2.prems"(9)
  have lt: "length results < 10" using cap_room[OF cap gt nv len] .
  obtain attrs where attrs: "map_of (nodes g) current = Some attrs"
    using qn by (auto simp: has_node_def)
  let ?new = "map (\<lambda>neighbor. (neighbor, Suc depth, path @ [current]))
                (filter (\<lambda>neighbor. neighbor \<notin> insert current visited) (neighbors g current))"
  let ?results' = "(if dict_get attrs ''type'' (Str '''') = Str goal_type \<and> current \<noteq> start_node
                    then results @ [bfs_result current depth path] else results)"
  have qn': "\<forall>e\<in>set (queue @ ?new). has_node g (fst e)"
    using qn neighbors_are_nodes[OF wf, of _ current] by auto
  from sp obtain pre p post where q: "(current, depth, path) # queue = pre @ (goal, 2, p) # post"
    and pre: "goal \<notin> fst ` set pre" by blast
  show ?case
  proof (cases "current = goal")
    case True
    then have "pre = []" using q pre by (cases pre) auto
    then have d: "depth = 2" "path = p" using q by auto
    have visit: "\<not> (int depth > max_steps \<or> current \<in> visited)"
      using d ms nv True by simp
    have emit: "dict_get attrs ''type'' (Str '''') = Str goal_type \<and> current \<noteq> start_node"
      using gt attrs True ne by (simp add: goal_set_def is_goal_node_def)
    obtain out where out: "bfs_loop g start_node goal_type max_steps (queue @ ?new)
        (insert current visited) ?results' = Inr out"
      using bfs_total[OF wf qn'] by blast
    have "bfs_result goal 2 p \<in> set ?results'" using emit True d by simp
    then have "bfs_result goal 2 p \<in> set out" using bfs_grow[OF out] by blast
    moreover have "bfs_loop g start_node goal_type max_steps ((current, depth, path) # queue)
        visited results = Inr out"
      using out lt visit attrs by simp
    ultimately show ?thesis by blast
  next
    case False
    then obtain pre' where pre': "pre = (current, depth, path) # pre'" "queue = pre' @ (goal, 2, p) # post"
      using q by (cases pre) auto
    have pre'n: "goal \<notin> fst ` set pre'" using pre pre' by simp
    show ?thesis
    proof (cases "int depth > max_steps \<or> current \<in> visited")
      case True
      have "\<exists>out p'. bfs_loop g start_node goal_type max_steps queue visited results = Inr out \<and>
               bfs_result goal 2 p' \<in> set out"
        using "2.IH"(1)[OF _ True wf gt ne ms cap _ nv _ len] lt qn pre' pre'n by auto
      then show ?thesis using lt True by simp
    next
      case visit: False
      have nv': "goal \<notin> insert current visited" using nv False by simp
      have sp': "\<exists>pre p post. queue @ ?new = pre @ (goal, 2, p) # post \<and> goal \<notin> fst ` set pre"
        using pre' pre'n by (intro exI[of _ pre'] exI[of _ p] exI[of _ "post @ ?new"]) simp
      have len': "length ?results' \<le> card (goal_set g goal_type \<inter> insert current visited)"
        using cap_step[OF len _ attrs] visit by simp
      have "\<exists>out p'. bfs_loop g start_node goal_type max_steps (queue @ ?new)
               (insert current visited) ?results' = Inr out \<and> bfs_result goal 2 p' \<in> set out"
        using "2.IH"(2)[OF _ visit attrs wf gt ne ms cap qn' nv' sp' len'] lt by simp
      then show ?thesis using lt visit attrs by simp
    qed
  qed
qed

lemma first_entry_split:
  fixes q :: "(string \<times> nat \<times> string list) list"
  assumes "x \<in> fst ` set q"
  shows "\<exists>pre d p post. q = pre @ (x, d, p) # post \<and> x \<notin> fst ` set pre"
proof -
  from assms have "\<exists>e\<in>set q. fst e = x" by auto
  then obtain ys e zs where s: "q = ys @ e # zs" "fst e = x" "\<forall>y\<in>set ys. fst y \<noteq> x"
    using split_list_first_prop[of q "\<lambda>e. fst e = x"] by blast
  obtain d p where "e = (x, d, p)" using s(2) by (cases e) auto
  then show ?thesis using s by (intro exI[of _ ys] exI[of _ d] exI[of _ p] exI[of _ zs]) auto
qed

lemma bfs_reaches_mid:
  "\<lbrakk>targets_exist g; goal \<in> goal_set g goal_type; goal \<noteq> start_node; 2 \<le> max_steps;
    card (goal_set g goal_type) \<le> 10; goal \<in> set (neighbors g mid); goal \<noteq> mid;
    \<forall>e\<in>set queue. has_node g (fst e); goal \<notin> visited; mid \<notin> visited;
    \<exists>pre p post. queue = pre @ (mid, 1, p) # post \<and>
       (\<forall>e\<in>set pre. fst e \<noteq> mid \<and> fst e \<noteq> goal \<and> fst (snd e) = 1) \<and>
       (\<forall>e\<in>set post. fst e = goal \<longrightarrow> fst (snd e) = 2);
    length results \<le> card (goal_set g goal_type \<inter> visited)\<rbrakk>
   \<Longrightarrow> \<exists>out p'. bfs_loop g start_node goal_type max_steps queue visited results = Inr out \<and>
               bfs_result goal 2 p' \<in> set out"
proof (induction g start_node goal_type max_steps queue visited results rule: bfs_loop.induct)
  case (1 g start_node goal_type max_steps visited results)
  then show ?case by simp
next
  case (2 g start_node goal_type max_steps current depth path queue visited results)
  note wf = "2.prems"(1) and gt = "2.prems"(2) and ne = "2.prems"(3) and ms = "2.prems"(4)
    and cap = "2.prems"(5) and edge = "2.prems"(6) and gm = "2.prems"(7)
    and qn = "2.prems"(8) and nv = "2.prems"(9) and mv = "2.prems"(10) and sp = "2.prems"(11)
    and len = "2.prems"(12)
  have lt: "length results < 10" using cap_room[OF cap gt nv len] .
  obtain attrs where attrs: "map_of (nodes g) current = Some attrs"
    using qn by (auto simp: has_node_def)
  let ?new = "map (\<lambda>neighbor. (neighbor, Suc depth, path @ [current]))
                (filter (\<lambda>neighbor. neighbor \<notin> insert current visited) (neighbors g current))"
  let ?results' = "(if dict_get attrs ''type'' (Str '''') = Str goal_type \<and> current \<noteq> start_node
                    then results @ [bfs_result current depth path] else results)"
  have qn': "\<forall>e\<in>set (queue @ ?new). has_node g (fst e)"
    using qn neighbors_are_nodes[OF wf, of _ current] by auto
  from sp obtain pre p post where q: "(current, depth, path) # queue = pre @ (mid, 1, p) # post"
    and pre: "\<forall>e\<in>set pre. fst e \<noteq> mid \<and> fst e \<noteq> goal \<and> fst (snd e) = 1"
    and post: "\<forall>e\<in>set post. fst e = goal \<longrightarrow> fst (snd e) = 2" by blast
  show ?case
  proof (cases "current = mid")
    case True
    then have "pre = []" using q pre by (cases pre) auto
    then have d: "depth = 1" "queue = post" using q by auto
    have visit: "\<not> (int depth > max_steps \<or> current \<in> visited)"
      using d ms mv True by simp
    have nv': "goal \<notin> insert current visited" using nv gm True by simp
    have in_new: "(goal, 2, path @ [current]) \<in> set ?new"
      using edge nv' True d by auto
    have all2: "\<forall>e\<in>set (queue @ ?new). fst e = goal \<longrightarrow> fst (snd e) = 2"
      using post d by auto
    have "goal \<in> fst ` set (queue @ ?new)" using in_new by force
    then obtain pre2 d2 p2 post2 where s2: "queue @ ?new = pre2 @ (goal, d2, p2) # post2"
      "goal \<notin> fst ` set pre2"
      using first_entry_split[of goal "queue @ ?new"] by blast
    have "(goal, d2, p2) \<in> set (queue @ ?new)" using s2(1) by simp
    then have "d2 = 2" using all2 by fastforce
    then have sp': "\<exists>pre p post. queue @ ?new = pre @ (goal, 2, p) # post \<and> goal \<notin> fst ` set pre"
      using s2 by blast
    have len': "length ?results' \<le> card (goal_set g goal_type \<inter> insert current visited)"
      using cap_step[OF len _ attrs] visit by simp
    have "\<exists>out p'. bfs_loop g start_node goal_type max_steps (queue @ ?new)
               (insert current visited) ?results' = Inr out \<and> bfs_result goal 2 p' \<in> set out"
      by (rule bfs_finds_goal[OF wf gt ne ms cap qn' nv' sp' len'])
    then show ?thesis using lt visit attrs by simp
  next
    case False
    then obtain pre' where pre': "pre = (current, depth, path) # pre'" "queue = pre' @ (mid, 1, p) # post"
      using q by (cases pre) auto
    have cur: "current \<noteq> goal" "depth = 1" using pre pre' by auto
    have pre'p: "\<forall>e\<in>set pre'. fst e \<noteq> mid \<and> fst e \<noteq> goal \<and> fst (snd e) = 1"
      using pre pre' by simp
    show ?thesis
    proof (cases "int depth > max_steps \<or> current \<in> visited")
      case True
      have sp': "\<exists>pre p post. queue = pre @ (mid, 1, p) # post \<and>
         (\<forall>e\<in>set pre. fst e \<noteq> mid \<and> fst e \<noteq> goal \<and> fst (snd e) = 1) \<and>
         (\<forall>e\<in>set post. fst e = goal \<longrightarrow> fst (snd e) = 2)"
        using pre' pre'p post by blast
      have qn0: "\<forall>e\<in>set queue. has_node g (fst e)" using qn by simp
      have "\<exists>out p'. bfs_loop g start_node goal_type max_steps queue visited results = Inr out \<and>
               bfs_result goal 2 p' \<in> set out"
        using "2.IH"(1)[OF _ True wf gt ne ms cap edge gm qn0 nv mv sp' len] lt by simp
      then show ?thesis using lt True by simp
    next
      case visit: False
      have nv': "goal \<notin> insert current visited" using nv cur by simp
      have mv': "mid \<notin> insert current visited" using mv False by simp
      have post': "\<forall>e\<in>set (post @ ?new). fst e = goal \<longrightarrow> fst (snd e) = 2"
        using post cur by auto
      have sp': "\<exists>pre p post. queue @ ?new = pre @ (mid, 1, p) # post \<and>
         (\<forall>e\<in>set pre. fst e \<noteq> mid \<and> fst e \<noteq> goal \<and> fst (snd e) = 1) \<and>
         (\<forall>e\<in>set post. fst e = goal \<longrightarrow> fst (snd e) = 2)"
        using pre' pre'p post'
        by (intro exI[of _ pre'] exI[of _ p] exI[of _ "post @ ?new"]) simp
      have len': "length ?results' \<le> card (goal_set g goal_type \<inter> insert current visited)"
        using cap_step[OF len _ attrs] visit by simp
      have "\<exists>out p'. bfs_loop g start_node goal_type max_steps (queue @ ?new)
               (insert current visited) ?results' = Inr out \<and> bfs_result goal 2 p' \<in> set out"
        using "2.IH"(2)[OF _ visit attrs wf gt ne ms cap edge gm qn' nv' mv' sp' len'] lt by simp
      then show ?thesis using lt visit attrs by simp
    qed
  qed
qed

lemma bfs_search_two_hops:
  assumes wf: "targets_exist g" and st: "has_node g start_node"
    and e1: "mid \<in> set (neighbors g start_node)" and e2: "goal \<in> set (neighbors g mid)"
    and far: "goal \<notin> set (neighbors g start_node)" and ne: "goal \<noteq> start_node"
    and gt: "goal \<in> goal_set g goal_type" and ms: "2 \<le> max_steps"
    and cap: "card (goal_set g goal_type) \<le> 10"
  shows "\<exists>out p'. bfs_search g start_node goal_type max_steps = Inr out \<and>
           bfs_result goal 2 p' \<in> set out"
proof -
  obtain attrs where attrs: "map_of (nodes g) start_node = Some attrs"
    using st by (auto simp: has_node_def)
  let ?q = "map (\<lambda>neighbor. (neighbor, Suc 0, [] @ [start_node]))
              (filter (\<lambda>neighbor. neighbor \<notin> insert start_node {}) (neighbors g start_node))"
  have gm: "goal \<noteq> mid" using e1 far by auto
  have ms': "mid \<noteq> start_node" using e2 far by auto
  have unfold: "bfs_search g start_node goal_type max_steps =
      bfs_loop g start_node goal_type max_steps ?q {start_node} []"
    using attrs ms by (simp add: bfs_search_def)
  have qn: "\<forall>e\<in>set ?q. has_node g (fst e)"
    using neighbors_are_nodes[OF wf, of _ start_node] by auto
  have "mid \<in> fst ` set ?q" using e1 ms' by force
  then obtain pre d p post where s: "?q = pre @ (mid, d, p) # post" "mid \<notin> fst ` set pre"
    using first_entry_split[of mid ?q] by blast
  have allq: "\<forall>e\<in>set ?q. fst e \<noteq> goal \<and> fst (snd e) = 1"
    using far by auto
  have "(mid, d, p) \<in> set ?q" using s(1) by simp
  then have d1: "d = 1" using allq by fastforce
  have pre: "\<forall>e\<in>set pre. fst e \<noteq> mid \<and> fst e \<noteq> goal \<and> fst (snd e) = 1"
  proof
    fix e assume "e \<in> set pre"
    then have "e \<in> set ?q" using s(1) by simp
    then have "fst e \<noteq> goal \<and> fst (snd e) = 1" using allq by blast
    moreover have "fst e \<noteq> mid" using \<open>e \<in> set pre\<close> s(2) by auto
    ultimately show "fst e \<noteq> mid \<and> fst e \<noteq> goal \<and> fst (snd e) = 1" by simp
  qed
  have post: "\<forall>e\<in>set post. fst e = goal \<longrightarrow> fst (snd e) = 2"
  proof
    fix e assume "e \<in> set post"
    then have "e \<in> set ?q" using s(1) by simp
    then show "fst e = goal \<longrightarrow> fst (snd e) = 2" using allq by blast
  qed
  have sp: "\<exists>pre p post. ?q = pre @ (mid, 1, p) # post \<and>
       (\<forall>e\<in>set pre. fst e \<noteq> mid \<and> fst e \<noteq> goal \<and> fst (snd e) = 1) \<and>
       (\<forall>e\<in>set post. fst e = goal \<longrightarrow> fst (snd e) = 2)"
    using s(1) d1 pre post by blast
  have nv: "goal \<notin> {start_node}" using ne by simp
  have mv: "mid \<notin> {start_node}" using ms' by simp
  have len: "length ([]::pydict list) \<le> card (goal_set g goal_type \<inter> {start_node})" by simp
  show ?thesis
    unfolding unfold
    by (rule bfs_reaches_mid[OF wf gt ne ms cap e2 gm qn nv mv sp len])
qed

lemma bfs_result_node_id [simp]: "map_of (bfs_result c d p) ''node_id'' = Some (Str c)"
  by (simp add: bfs_result_def)

lemma bfs_excludes:
  "\<lbrakk>goal \<notin> set (neighbors g start_node); goal \<noteq> start_node; max_steps \<le> 1;
    \<forall>e\<in>set queue. (fst (snd e) = 0 \<longrightarrow> fst e = start_node) \<and> (fst e = goal \<longrightarrow> 2 \<le> fst (snd e));
    \<forall>r\<in>set results. map_of r ''node_id'' \<noteq> Some (Str goal);
    bfs_loop g start_node goal_type max_steps queue visited results = Inr out\<rbrakk>
   \<Longrightarrow> \<forall>r\<in>set out. map_of r ''node_id'' \<noteq> Some (Str goal)"
proof (induction g start_node goal_type max_steps queue visited results rule: bfs_loop.induct)
  case (1 g start_node goal_type max_steps visited results)
  then show ?case by simp
next
  case (2 g start_node goal_type max_steps current depth path queue visited results)
  note far = "2.prems"(1) and ne = "2.prems"(2) and ms = "2.prems"(3) and q = "2.prems"(4)
    and res = "2.prems"(5) and run = "2.prems"(6)
  show ?case
  proof (cases "length results < 10")
    case False
    then show ?thesis using run res by simp
  next
    case lt: True
    show ?thesis
    proof (cases "int depth > max_steps \<or> current \<in> visited")
      case True
      have q': "\<forall>e\<in>set queue. (fst (snd e) = 0 \<longrightarrow> fst e = start_node) \<and>
                  (fst e = goal \<longrightarrow> 2 \<le> fst (snd e))" using q by simp
      have run': "bfs_loop g start_node goal_type max_steps queue visited results = Inr out"
        using run lt True by simp
      show ?thesis by (rule "2.IH"(1)[OF _ True far ne ms q' res run']) (use lt in simp)
    next
      case visit: False
      then obtain attrs where attrs: "map_of (nodes g) current = Some attrs"
        using run lt by (cases "map_of (nodes g) current") auto
      let ?new = "map (\<lambda>neighbor. (neighbor, Suc depth, path @ [current]))
                (filter (\<lambda>neighbor. neighbor \<notin> insert current visited) (neighbors g current))"
      let ?results' = "(if dict_get attrs ''type'' (Str '''') = Str goal_type \<and> current \<noteq> start_node
                    then results @ [bfs_result current depth path] else results)"
      have d1: "depth \<le> 1" using visit ms by simp
      have cur: "current \<noteq> goal" using q d1 by auto
      have res': "\<forall>r\<in>set ?results'. map_of r ''node_id'' \<noteq> Some (Str goal)"
        using res cur by auto
      have newq: "\<forall>e\<in>set ?new. (fst (snd e) = 0 \<longrightarrow> fst e = start_node) \<and>
                  (fst e = goal \<longrightarrow> 2 \<le> fst (snd e))"
      proof
        fix e assume e: "e \<in> set ?new"
        then obtain n where n: "n \<in> set (neighbors g current)" "e = (n, Suc depth, path @ [current])"
          by auto
        have "n = goal \<longrightarrow> 1 \<le> depth"
        proof
          assume "n = goal"
          then have "current \<noteq> start_node" using n(1) far by auto
          then have "depth \<noteq> 0" using q by auto
          then show "1 \<le> depth" by simp
        qed
        then show "(fst (snd e) = 0 \<longrightarrow> fst e = start_node) \<and> (fst e = goal \<longrightarrow> 2 \<le> fst (snd e))"
          using n(2) by simp
      qed
      have q': "\<forall>e\<in>set (queue @ ?new). (fst (snd e) = 0 \<longrightarrow> fst e = start_node) \<and>
                  (fst e = goal \<longrightarrow> 2 \<le> fst (snd e))"
        using q newq by auto
      have run': "bfs_loop g start_node goal_type max_steps (queue @ ?new)
               (insert current visited) ?results' = Inr out"
        using run lt visit attrs by simp
      show ?thesis
        by (rule "2.IH"(2)[OF _ visit attrs far ne ms q' res' run']) (use lt in simp)
    qed
  qed
qed

lemma bfs_search_excludes:
  assumes "goal \<notin> set (neighbors g start_node)" "goal \<noteq> start_node" "max_steps \<le> 1"
    "bfs_search g start_node goal_type max_steps = Inr out"
  shows "\<forall>r\<in>set out. map_of r ''node_id'' \<noteq> Some (Str goal)"
  using bfs_excludes[OF assms(1,2,3), of "[(start_node, 0, [])]" "[]" goal_type "{}" out] assms(2,4)
  by (simp add: bfs_search_def)

lemma walk_record_bfs: "walk_record (bfs_result c d p)"
  by (simp add: walk_record_def bfs_result_def numeric_score_def dict_get_def)

lemma walk_record_pagerank: "walk_record (pagerank_result pr n l)"
  by (simp add: walk_record_def pagerank_result_def numeric_score_def dict_get_def)

lemma walk_record_shortest: "walk_record (shortest_path_result n p w)"
  by (simp add: walk_record_def shortest_path_result_def numeric_score_def dict_get_def)

lemma bfs_records:
  "\<lbrakk>bfs_loop g start_node goal_type max_steps queue visited results = Inr out;
    \<forall>r\<in>set results. walk_record r\<rbrakk> \<Longrightarrow> \<forall>r\<in>set out. walk_record r"
proof (induction g start_node goal_type max_steps queue visited results rule: bfs_loop.induct)
  case (1 g start_node goal_type max_steps visited results)
  then show ?case by simp
next
  case (2 g start_node goal_type max_steps current depth path queue visited results)
  show ?case
  proof (cases "length results < 10")
    case False
    then show ?thesis using "2.prems" by simp
  next
    case lt: True
    show ?thesis
    proof (cases "int depth > max_steps \<or> current \<in> visited")
      case True
      then show ?thesis using 2 lt by simp
    next
      case False
      then obtain attrs where attrs: "map_of (nodes g) current = Some attrs"
        using "2.prems" lt by (cases "map_of (nodes g) current") auto
      let ?results' = "(if dict_get attrs ''type'' (Str []) = Str goal_type \<and> current \<noteq> start_node
                    then results @ [bfs_result current depth path] else results)"
      have r': "\<forall>r\<in>set ?results'. walk_record r"
        using "2.prems"(2) walk_record_bfs by simp
      show ?thesis
        using "2.IH"(2)[OF _ False attrs _ r'] "2.prems"(1) lt False attrs
        by simp
    qed
  qed
qed

lemma bfs_distinct:
  "\<lbrakk>bfs_loop g start_node goal_type max_steps queue visited results = Inr out;
    distinct (map (\<lambda>r. map_of r ''node_id'') results);
    \<forall>r\<in>set results. \<exists>c\<in>visited. map_of r ''node_id'' = Some (Str c)\<rbrakk>
   \<Longrightarrow> distinct (map (\<lambda>r. map_of r ''node_id'') out)"
proof (induction g start_node goal_type max_steps queue visited results rule: bfs_loop.induct)
  case (1 g start_node goal_type max_steps visited results)
  then show ?case by simp
next
  case (2 g start_node goal_type max_steps current depth path queue visited results)
  show ?case
  proof (cases "length results < 10")
    case False
    then show ?thesis using "2.prems" by simp
  next
    case lt: True
    show ?thesis
    proof (cases "int depth > max_steps \<or> current \<in> visited")
      case True
      then show ?thesis using 2 lt by simp
    next
      case False
      then obtain attrs where attrs: "map_of (nodes g) current = Some attrs"
        using "2.prems" lt by (cases "map_of (nodes g) current") auto
      let ?results' = "(if dict_get attrs ''type'' (Str '''') = Str goal_type \<and> current \<noteq> start_node
                    then results @ [bfs_result current depth path] else results)"
      have fresh: "\<forall>r\<in>set results. map_of r ''node_id'' \<noteq> Some (Str current)"
        using "2.prems"(3) False by auto
      have d': "distinct (map (\<lambda>r. map_of r ''node_id'') ?results')"
        using "2.prems"(2) fresh by auto
      have v': "\<forall>r\<in>set ?results'. \<exists>c\<in>insert current visited. map_of r ''node_id'' = Some (Str c)"
        using "2.prems"(3) by auto
      show ?thesis
        using "2.IH"(2)[OF _ False attrs _ d' v'] "2.prems"(1) lt False attrs
        by simp
    qed
  qed
qed

lemma far_length:
  assumes "goal \<notin> set (neighbors g s)" "goal \<noteq> s" "lib_sound lib g s goal"
    "nx_shortest_path_length lib g s goal = Inr n"
  shows "2 \<le> n"
proof (rule ccontr)
  assume "\<not> 2 \<le> n"
  then have "n = 0 \<or> n = Suc 0" by auto
  moreover have "goal \<in> set (within_hops g s n)" using assms(3,4) by (simp add: lib_sound_def)
  ultimately show False using assms(1,2) by auto
qed

lemma far_path:
  assumes "goal \<notin> set (neighbors g s)" "goal \<noteq> s" "lib_sound lib g s goal"
    "nx_shortest_path lib g s goal = Inr p"
  shows "3 \<le> length p"
proof -
  have w: "is_walk g p" "hd p = s" "last p = goal" using assms(3,4) by (simp_all add: lib_sound_def)
  show ?thesis
  proof (cases p)
    case Nil
    then show ?thesis using w by simp
  next
    case (Cons x xs)
    note c1 = Cons
    show ?thesis
    proof (cases xs)
      case Nil
      then show ?thesis using w c1 assms(2) by simp
    next
      case (Cons y ys)
      show ?thesis
      proof (cases ys)
        case Nil
        then show ?thesis using w c1 Cons assms(1) by simp
      next
        case (Cons z zs)
        then show ?thesis using c1 \<open>xs = y # ys\<close> by simp
      qed
    qed
  qed
qed

lemma pagerank_loop_excludes:
  "\<lbrakk>pagerank_loop lib g pr s t m nds acc = Inr out;
    \<forall>r\<in>set acc. map_of r ''node_id'' \<noteq> Some (Str goal);
    \<forall>n. nx_shortest_path_length lib g s goal = Inr n \<longrightarrow> \<not> int n \<le> m\<rbrakk>
   \<Longrightarrow> \<forall>r\<in>set out. map_of r ''node_id'' \<noteq> Some (Str goal)"
proof (induction nds arbitrary: acc)
  case Nil
  then show ?case by simp
next
  case (Cons nd nds)
  obtain node_id node_data where nd: "nd = (node_id, node_data)" by (cases nd)
  show ?case
  proof (cases "map_of node_data ''type'' = Some (Str t)")
    case False
    then show ?thesis using Cons nd by simp
  next
    case True
    show ?thesis
    proof (cases "nx_shortest_path_length lib g s node_id")
      case (Inl e)
      then show ?thesis using Cons nd True by (simp split: if_splits)
    next
      case (Inr n)
      let ?acc' = "(if int n \<le> m then acc @ [pagerank_result pr node_id n] else acc)"
      have run: "pagerank_loop lib g pr s t m nds ?acc' = Inr out"
        using Cons.prems(1) nd True Inr by simp
      have "\<forall>r\<in>set ?acc'. map_of r ''node_id'' \<noteq> Some (Str goal)"
        using Cons.prems(2,3) Inr by (auto simp: pagerank_result_def)
      then show ?thesis using Cons.IH[OF run _ Cons.prems(3)] by blast
    qed
  qed
qed

lemma pagerank_loop_records:
  "\<lbrakk>pagerank_loop lib g pr s t m nds acc = Inr out; \<forall>r\<in>set acc. walk_record r\<rbrakk>
   \<Longrightarrow> \<forall>r\<in>set out. walk_record r"
proof (induction nds arbitrary: acc)
  case Nil
  then show ?case by simp
next
  case (Cons nd nds)
  obtain node_id node_data where nd: "nd = (node_id, node_data)" by (cases nd)
  show ?case
  proof (cases "map_of node_data ''type'' = Some (Str t)")
    case False
    then show ?thesis using Cons nd by simp
  next
    case True
    show ?thesis
    proof (cases "nx_shortest_path_length lib g s node_id")
      case (Inl e)
      then show ?thesis using Cons nd True by (simp split: if_splits)
    next
      case (Inr n)
      let ?acc' = "(if int n \<le> m then acc @ [pagerank_result pr node_id n] else acc)"
      have run: "pagerank_loop lib g pr s t m nds ?acc' = Inr out"
        using Cons.prems(1) nd True Inr by simp
      have "\<forall>r\<in>set ?acc'. walk_record r"
        using Cons.prems(2) walk_record_pagerank by simp
      then show ?thesis using Cons.IH[OF run] by blast
    qed
  qed
qed

lemma pagerank_search_records: "\<forall>r\<in>set (pagerank_search lib g s t m). walk_record r"
proof (cases "nx_pagerank lib g")
  case (Inl e)
  then show ?thesis by (simp add: pagerank_search_def)
next
  case (Inr pr)
  show ?thesis
  proof (cases "pagerank_loop lib g pr s t m (nodes g) []")
    case (Inl e)
    then show ?thesis using Inr by (simp add: pagerank_search_def)
  next
    case r: (Inr out)
    then show ?thesis using Inr pagerank_loop_records[OF r] by (simp add: pagerank_search_def)
  qed
qed

lemma pagerank_search_excludes:
  assumes "\<forall>n. nx_shortest_path_length lib g s goal = Inr n \<longrightarrow> \<not> int n \<le> m"
  shows "\<forall>r\<in>set (pagerank_search lib g s t m). map_of r ''node_id'' \<noteq> Some (Str goal)"
proof (cases "nx_pagerank lib g")
  case (Inl e)
  then show ?thesis by (simp add: pagerank_search_def)
next
  case (Inr pr)
  show ?thesis
  proof (cases "pagerank_loop lib g pr s t m (nodes g) []")
    case (Inl e)
    then show ?thesis using Inr by (simp add: pagerank_search_def)
  next
    case r: (Inr out)
    then show ?thesis using Inr pagerank_loop_excludes[OF r _ assms]
      by (simp add: pagerank_search_def)
  qed
qed

lemma shortest_path_loop_excludes:
  "\<lbrakk>shortest_path_loop lib g s m goals acc = Inr out;
    \<forall>r\<in>set acc. map_of r ''node_id'' \<noteq> Some (Str goal);
    \<forall>p. nx_shortest_path lib g s goal = Inr p \<longrightarrow> \<not> int (length p) \<le> m + 1\<rbrakk>
   \<Longrightarrow> \<forall>r\<in>set out. map_of r ''node_id'' \<noteq> Some (Str goal)"
proof (induction goals arbitrary: acc)
  case Nil
  then show ?case by simp
next
  case (Cons x goals)
  show ?case
  proof (cases "nx_shortest_path lib g s x")
    case (Inl e)
    then show ?thesis using Cons by (simp split: if_splits)
  next
    case (Inr p)
    show ?thesis
    proof (cases "int (length p) \<le> m + 1")
      case False
      then show ?thesis using Cons Inr by simp
    next
      case True
      then have xg: "x \<noteq> goal" using Cons.prems(3) Inr by auto
      obtain w where w: "path_weight g p = Inr w" and pne: "p \<noteq> []"
        using Cons.prems(1) Inr True by (cases "path_weight g p") (auto split: if_splits)
      have run: "shortest_path_loop lib g s m goals (acc @ [shortest_path_result x p w]) = Inr out"
        using Cons.prems(1) Inr True w pne by simp
      have "\<forall>r\<in>set (acc @ [shortest_path_result x p w]). map_of r ''node_id'' \<noteq> Some (Str goal)"
        using Cons.prems(2) xg by (auto simp: shortest_path_result_def)
      then show ?thesis using Cons.IH[OF run _ Cons.prems(3)] by blast
    qed
  qed
qed

lemma shortest_path_loop_records:
  "\<lbrakk>shortest_path_loop lib g s m goals acc = Inr out; \<forall>r\<in>set acc. walk_record r\<rbrakk>
   \<Longrightarrow> \<forall>r\<in>set out. walk_record r"
proof (induction goals arbitrary: acc)
  case Nil
  then show ?case by simp
next
  case (Cons x goals)
  show ?case
  proof (cases "nx_shortest_path lib g s x")
    case (Inl e)
    then show ?thesis using Cons by (simp split: if_splits)
  next
    case (Inr p)
    show ?thesis
    proof (cases "int (length p) \<le> m + 1")
      case False
      then show ?thesis using Cons Inr by simp
    next
      case True
      obtain w where w: "path_weight g p = Inr w" and pne: "p \<noteq> []"
        using Cons.prems(1) Inr True by (cases "path_weight g p") (auto split: if_splits)
      have run: "shortest_path_loop lib g s m goals (acc @ [shortest_path_result x p w]) = Inr out"
        using Cons.prems(1) Inr True w pne by simp
      have "\<forall>r\<in>set (acc @ [shortest_path_result x p w]). walk_record r"
        using Cons.prems(2) walk_record_shortest by simp
      then show ?thesis using Cons.IH[OF run] by blast
    qed
  qed
qed

lemma shortest_path_search_records: "\<forall>r\<in>set (shortest_path_search lib g s t m). walk_record r"
proof (cases "shortest_path_loop lib g s m (nodes_of_type g t) []")
  case (Inl e)
  then show ?thesis by (simp add: shortest_path_search_def)
next
  case (Inr out)
  then show ?thesis using shortest_path_loop_records[OF Inr] by (simp add: shortest_path_search_def)
qed

lemma shortest_path_search_excludes:
  assumes "\<forall>p. nx_shortest_path lib g s goal = Inr p \<longrightarrow> \<not> int (length p) \<le> m + 1"
  shows "\<forall>r\<in>set (shortest_path_search lib g s t m). map_of r ''node_id'' \<noteq> Some (Str goal)"
proof (cases "shortest_path_loop lib g s m (nodes_of_type g t) []")
  case (Inl e)
  then show ?thesis by (simp add: shortest_path_search_def)
next
  case (Inr out)
  then show ?thesis using shortest_path_loop_excludes[OF Inr _ assms]
    by (simp add: shortest_path_search_def)
qed

lemma dedupe_acc:
  "dedupe xs seen acc = Inr out \<Longrightarrow> set acc \<subseteq> set out"
proof (induction xs arbitrary: seen acc)
  case Nil
  then show ?case by simp
next
  case (Cons x xs)
  show ?case
  proof (cases "dict_index x ''node_id''")
    case (Inl e)
    then show ?thesis using Cons.prems by simp
  next
    case (Inr nid)
    show ?thesis
    proof (cases "nid \<in> seen")
      case True
      then have "dedupe xs seen acc = Inr out" using Cons.prems Inr by simp
      then show ?thesis by (rule Cons.IH)
    next
      case False
      then have "dedupe xs (insert nid seen) (acc @ [x]) = Inr out" using Cons.prems Inr by simp
      then have "set (acc @ [x]) \<subseteq> set out" by (rule Cons.IH)
      then show ?thesis by simp
    qed
  qed
qed

lemma dedupe_subset:
  "dedupe xs seen acc = Inr out \<Longrightarrow> set out \<subseteq> set acc \<union> set xs"
proof (induction xs arbitrary: seen acc)
  case Nil
  then show ?case by simp
next
  case (Cons x xs)
  show ?case
  proof (cases "dict_index x ''node_id''")
    case (Inl e)
    then show ?thesis using Cons.prems by simp
  next
    case (Inr nid)
    show ?thesis
    proof (cases "nid \<in> seen")
      case True
      then have "dedupe xs seen acc = Inr out" using Cons.prems Inr by simp
      then show ?thesis using Cons.IH by fastforce
    next
      case False
      then have "dedupe xs (insert nid seen) (acc @ [x]) = Inr out" using Cons.prems Inr by simp
      then have "set out \<subseteq> set (acc @ [x]) \<union> set xs" by (rule Cons.IH)
      then show ?thesis by auto
    qed
  qed
qed

lemma dedupe_total:
  "\<forall>r\<in>set xs. walk_record r \<Longrightarrow> \<exists>out. dedupe xs seen acc = Inr out"
proof (induction xs arbitrary: seen acc)
  case Nil
  then show ?case by simp
next
  case (Cons x xs)
  then obtain n where "map_of x ''node_id'' = Some (Str n)" by (auto simp: walk_record_def)
  then have "dict_index x ''node_id'' = Inr (Str n)" by (simp add: dict_index_def)
  then show ?case using Cons by simp
qed

lemma dedupe_keeps_first:
  "\<lbrakk>dedupe (pre @ r # post) seen acc = Inr out; map_of r ''node_id'' = Some nid; nid \<notin> seen;
    \<forall>x\<in>set pre. map_of x ''node_id'' \<noteq> Some nid\<rbrakk> \<Longrightarrow> r \<in> set out"
proof (induction pre arbitrary: seen acc)
  case Nil
  then have "dedupe post (insert nid seen) (acc @ [r]) = Inr out"
    by (simp add: dict_index_def)
  then show ?case using dedupe_acc by fastforce
next
  case (Cons x pre)
  show ?case
  proof (cases "dict_index x ''node_id''")
    case (Inl e)
    then show ?thesis using Cons.prems by simp
  next
    case (Inr xid)
    then have ne: "xid \<noteq> nid" using Cons.prems(4) by (auto simp: dict_index_def split: option.splits)
    show ?thesis
    proof (cases "xid \<in> seen")
      case True
      then have "dedupe (pre @ r # post) seen acc = Inr out" using Cons.prems(1) Inr by simp
      then show ?thesis using Cons.IH[of seen acc] Cons.prems by simp
    next
      case False
      then have "dedupe (pre @ r # post) (insert xid seen) (acc @ [x]) = Inr out"
        using Cons.prems(1) Inr by simp
      then show ?thesis using Cons.IH[of "insert xid seen" "acc @ [x]"] Cons.prems ne by simp
    qed
  qed
qed

lemma sort_by_score_ok:
  "\<forall>r\<in>set xs. walk_record r \<Longrightarrow> \<exists>out. sort_by_score xs = Inr out \<and> set out = set xs"
  by (auto simp: sort_by_score_def walk_record_def list_all_iff py_sorted_desc_def)

text \<open>The outcome of \<open>reasoning_walk\<close> for one start node of the graph.\<close>

lemma reasoning_walk_one_start:
  assumes st: "has_node g start_node"
    and bfs: "bfs_search g start_node goal_type max_steps = Inr bfs_out"
  shows "\<exists>deduped out.
           dedupe (bfs_out @ pagerank_search lib g start_node goal_type max_steps
                     @ shortest_path_search lib g start_node goal_type max_steps) {} [] = Inr deduped \<and>
           reasoning_walk lib g [start_node] goal_type max_steps = Inr out \<and>
           set out = set deduped"
proof -
  let ?all = "bfs_out @ pagerank_search lib g start_node goal_type max_steps
                @ shortest_path_search lib g start_node goal_type max_steps"
  have b: "\<forall>r\<in>set bfs_out. walk_record r"
    using bfs_records[of g start_node goal_type max_steps "[(start_node, 0, [])]" "{}" "[]" bfs_out] bfs
    by (simp add: bfs_search_def)
  have rec: "\<forall>r\<in>set ?all. walk_record r"
    using b pagerank_search_records[of lib g start_node goal_type max_steps]
      shortest_path_search_records[of lib g start_node goal_type max_steps] by auto
  obtain deduped where d: "dedupe ?all {} [] = Inr deduped"
    using dedupe_total[OF rec] by blast
  have "set deduped \<subseteq> set ?all" using dedupe_subset[OF d] by simp
  then have "\<forall>r\<in>set deduped. walk_record r" using rec by blast
  then obtain out where o: "sort_by_score deduped = Inr out" "set out = set deduped"
    using sort_by_score_ok by blast
  have "reasoning_walk lib g [start_node] goal_type max_steps = Inr out"
    using st bfs d o(1)
    by (simp add: reasoning_walk_def reasoning_walk_body_def try_except_value_def)
  then show ?thesis using d o(2) by blast
qed

lemma goal_set_card:
  "card (goal_set g t) \<le> length (filter (\<lambda>nd. dict_get (snd nd) ''type'' (Str '''') = Str t) (nodes g))"
proof -
  let ?f = "filter (\<lambda>nd. dict_get (snd nd) ''type'' (Str '''') = Str t) (nodes g)"
  have "goal_set g t \<subseteq> fst ` set ?f"
  proof
    fix n assume "n \<in> goal_set g t"
    then obtain attrs where a: "map_of (nodes g) n = Some attrs"
        "dict_get attrs ''type'' (Str '''') = Str t"
      by (auto simp: goal_set_def is_goal_node_def split: option.splits)
    then have "(n, attrs) \<in> set (nodes g)" by (simp add: map_of_SomeD)
    then have "(n, attrs) \<in> set ?f" using a(2) by simp
    then show "n \<in> fst ` set ?f" by force
  qed
  then have "card (goal_set g t) \<le> card (fst ` set ?f)"
    by (intro card_mono) auto
  also have "\<dots> \<le> card (set ?f)" by (intro card_image_le) simp
  also have "\<dots> \<le> length ?f" by (rule card_length)
  finally show ?thesis .
qed

text \<open>
  C4, as stated, fails: a graph that contains the path \<open>start -> mid -> goal\<close> may also
  contain the edge \<open>start -> goal\<close>. The breadth-first strategy then finds \<open>goal\<close> at depth
  1: with \<open>max_steps = 1\<close> it is in the results, and with \<open>max_steps = 2\<close> its score is
  1/2, not 1/3.
\<close>

theorem reasoning_walk_two_hops_counterexample:
  "set (neighbors shortcut_graph ''start'') = {''mid'', ''goal''} \<and>
   neighbors shortcut_graph ''mid'' = [''goal''] \<and>
   bfs_search shortcut_graph ''start'' ''document'' 1 = Inr [bfs_result ''goal'' 1 [''start'']] \<and>
   bfs_search shortcut_graph ''start'' ''document'' 2 = Inr [bfs_result ''goal'' 1 [''start'']] \<and>
   composite_score (bfs_result ''goal'' 1 [''start'']) = 1 / 2"
  by (simp add: bfs_search_def shortcut_graph_def path_graph_def neighbors_def dict_get_def
        composite_score_def bfs_result_def insert_commute)

text \<open>
  C4, amended. In a graph whose edges end in nodes: when \<open>start\<close> has an edge to \<open>mid\<close> and
  \<open>mid\<close> one to \<open>goal\<close>, \<open>goal\<close> is no direct successor of \<open>start\<close>, \<open>goal\<close> has the goal
  type, \<open>start\<close> does not, and at most 10 nodes have the goal type, the walk from \<open>start\<close>
  with \<open>max_steps = 2\<close> holds the breadth-first record of \<open>goal\<close> at depth 2, scored 1/3.
  When \<open>goal\<close> is neither \<open>start\<close> nor a direct successor of \<open>start\<close> (and the library's
  paths are paths of the graph), the walk with \<open>max_steps = 1\<close> holds no record of \<open>goal\<close>,
  and neither does any of the three strategies.
\<close>

theorem reasoning_walk_two_hops:
  "(targets_exist g \<and> has_node g start_node \<and> mid \<in> set (neighbors g start_node) \<and>
    goal \<in> set (neighbors g mid) \<and> goal \<notin> set (neighbors g start_node) \<and>
    is_goal_node g goal_type goal \<and> \<not> is_goal_node g goal_type start_node \<and>
    length (filter (\<lambda>nd. dict_get (snd nd) ''type'' (Str '''') = Str goal_type) (nodes g)) \<le> 10 \<longrightarrow>
      (\<exists>out p. reasoning_walk lib g [start_node] goal_type 2 = Inr out \<and>
          bfs_result goal 2 p \<in> set out \<and>
          map_of (bfs_result goal 2 p) ''method'' = Some (Str ''bfs'') \<and>
          composite_score (bfs_result goal 2 p) = 1 / 3)) \<and>
   (goal \<notin> set (neighbors g start_node) \<and> goal \<noteq> start_node \<and> lib_sound lib g start_node goal \<longrightarrow>
      (\<forall>out. bfs_search g start_node goal_type 1 = Inr out \<longrightarrow>
          (\<forall>r\<in>set out. map_of r ''node_id'' \<noteq> Some (Str goal))) \<and>
      (\<forall>r\<in>set (pagerank_search lib g start_node goal_type 1). map_of r ''node_id'' \<noteq> Some (Str goal)) \<and>
      (\<forall>r\<in>set (shortest_path_search lib g start_node goal_type 1).
          map_of r ''node_id'' \<noteq> Some (Str goal)) \<and>
      (\<exists>out. reasoning_walk lib g [start_node] goal_type 1 = Inr out \<and>
          (\<forall>r\<in>set out. map_of r ''node_id'' \<noteq> Some (Str goal))))"
proof (intro conjI impI)
  assume a: "targets_exist g \<and> has_node g start_node \<and> mid \<in> set (neighbors g start_node) \<and>
    goal \<in> set (neighbors g mid) \<and> goal \<notin> set (neighbors g start_node) \<and>
    is_goal_node g goal_type goal \<and> \<not> is_goal_node g goal_type start_node \<and>
    length (filter (\<lambda>nd. dict_get (snd nd) ''type'' (Str '''') = Str goal_type) (nodes g)) \<le> 10"
  then have wf: "targets_exist g" and st: "has_node g start_node"
    and e1: "mid \<in> set (neighbors g start_node)" and e2: "goal \<in> set (neighbors g mid)"
    and far: "goal \<notin> set (neighbors g start_node)" and gt: "is_goal_node g goal_type goal"
    and sg: "\<not> is_goal_node g goal_type start_node" by simp_all
  have ne: "goal \<noteq> start_node" using gt sg by auto
  have "map_of (nodes g) goal \<noteq> None"
    using gt by (auto simp: is_goal_node_def split: option.splits)
  then have "goal \<in> fst ` set (nodes g)"
    by (simp add: map_of_eq_None_iff)
  then have gs: "goal \<in> goal_set g goal_type" using gt by (simp add: goal_set_def)
  have cap: "card (goal_set g goal_type) \<le> 10"
    using goal_set_card[of g goal_type] a by linarith
  obtain bfs_out p where bfs: "bfs_search g start_node goal_type 2 = Inr bfs_out"
    and found: "bfs_result goal 2 p \<in> set bfs_out"
    using bfs_search_two_hops[OF wf st e1 e2 far ne gs _ cap, of 2] by auto
  let ?r = "bfs_result goal 2 p"
  let ?all = "bfs_out @ pagerank_search lib g start_node goal_type 2
                @ shortest_path_search lib g start_node goal_type 2"
  obtain deduped out where d: "dedupe ?all {} [] = Inr deduped"
    and o: "reasoning_walk lib g [start_node] goal_type 2 = Inr out" "set out = set deduped"
    using reasoning_walk_one_start[OF st bfs, of lib] by blast
  have dist: "distinct (map (\<lambda>r. map_of r ''node_id'') bfs_out)"
    using bfs_distinct[of g start_node goal_type 2 "[(start_node, 0, [])]" "{}" "[]" bfs_out] bfs
    by (simp add: bfs_search_def)
  obtain pre post where sp: "bfs_out = pre @ ?r # post"
    using found by (meson split_list)
  have first: "\<forall>x\<in>set pre. map_of x ''node_id'' \<noteq> Some (Str goal)"
    using dist sp by (auto simp: image_iff)
  have "?all = pre @ ?r # (post @ pagerank_search lib g start_node goal_type 2
                @ shortest_path_search lib g start_node goal_type 2)"
    using sp by simp
  then have "dedupe (pre @ ?r # (post @ pagerank_search lib g start_node goal_type 2
                @ shortest_path_search lib g start_node goal_type 2)) {} [] = Inr deduped"
    using d by simp
  then have "?r \<in> set deduped"
    using dedupe_keeps_first[of pre ?r _ "{}" "[]" deduped "Str goal"] first by simp
  then have "?r \<in> set out" using o(2) by simp
  moreover have "map_of ?r ''method'' = Some (Str ''bfs'')" by (simp add: bfs_result_def)
  moreover have "composite_score ?r = 1 / 3"
    by (simp add: composite_score_def bfs_result_def dict_get_def)
  ultimately show "\<exists>out p. reasoning_walk lib g [start_node] goal_type 2 = Inr out \<and>
          bfs_result goal 2 p \<in> set out \<and>
          map_of (bfs_result goal 2 p) ''method'' = Some (Str ''bfs'') \<and>
          composite_score (bfs_result goal 2 p) = 1 / 3"
    using o(1) by blast
next
  assume a: "goal \<notin> set (neighbors g start_node) \<and> goal \<noteq> start_node \<and> lib_sound lib g start_node goal"
  then show "\<forall>out. bfs_search g start_node goal_type 1 = Inr out \<longrightarrow>
          (\<forall>r\<in>set out. map_of r ''node_id'' \<noteq> Some (Str goal))"
    using bfs_search_excludes[of goal g start_node 1 goal_type] by simp
next
  assume a: "goal \<notin> set (neighbors g start_node) \<and> goal \<noteq> start_node \<and> lib_sound lib g start_node goal"
  have "\<forall>n. nx_shortest_path_length lib g start_node goal = Inr n \<longrightarrow> \<not> int n \<le> 1"
    using far_length[of goal g start_node lib] a by fastforce
  then show "\<forall>r\<in>set (pagerank_search lib g start_node goal_type 1).
      map_of r ''node_id'' \<noteq> Some (Str goal)"
    by (rule pagerank_search_excludes)
next
  assume a: "goal \<notin> set (neighbors g start_node) \<and> goal \<noteq> start_node \<and> lib_sound lib g start_node goal"
  have "\<forall>p. nx_shortest_path lib g start_node goal = Inr p \<longrightarrow> \<not> int (length p) \<le> 1 + 1"
    using far_path[of goal g start_node lib] a by fastforce
  then show "\<forall>r\<in>set (shortest_path_search lib g start_node goal_type 1).
      map_of r ''node_id'' \<noteq> Some (Str goal)"
    by (rule shortest_path_search_excludes)
next
  assume a: "goal \<notin> set (neighbors g start_node) \<and> goal \<noteq> start_node \<and> lib_sound lib g start_node goal"
  have pr: "\<forall>r\<in>set (pagerank_search lib g start_node goal_type 1).
      map_of r ''node_id'' \<noteq> Some (Str goal)"
  proof -
    have "\<forall>n. nx_shortest_path_length lib g start_node goal = Inr n \<longrightarrow> \<not> int n \<le> 1"
      using far_length[of goal g start_node lib] a by fastforce
    then show ?thesis by (rule pagerank_search_excludes)
  qed
  have sp: "\<forall>r\<in>set (shortest_path_search lib g start_node goal_type 1).
      map_of r ''node_id'' \<noteq> Some (Str goal)"
  proof -
    have "\<forall>p. nx_shortest_path lib g start_node goal = Inr p \<longrightarrow> \<not> int (length p) \<le> 1 + 1"
      using far_path[of goal g start_node lib] a by fastforce
    then show ?thesis by (rule shortest_path_search_excludes)
  qed
  show "\<exists>out. reasoning_walk lib g [start_node] goal_type 1 = Inr out \<and>
          (\<forall>r\<in>set out. map_of r ''node_id'' \<noteq> Some (Str goal))"
  proof (cases "has_node g start_node")
    case False
    then have "reasoning_walk lib g [start_node] goal_type 1 = Inr []"
      by (simp add: reasoning_walk_def reasoning_walk_body_def try_except_value_def
            sort_by_score_def py_sorted_desc_def)
    then show ?thesis by simp
  next
    case st: True
    show ?thesis
    proof (cases "bfs_search g start_node goal_type 1")
      case (Inl e)
      then have "reasoning_walk lib g [start_node] goal_type 1 = Inr []"
        using st by (simp add: reasoning_walk_def reasoning_walk_body_def try_except_value_def)
      then show ?thesis by simp
    next
      case (Inr bfs_out)
      have b: "\<forall>r\<in>set bfs_out. map_of r ''node_id'' \<noteq> Some (Str goal)"
        using bfs_search_excludes[of goal g start_node 1 goal_type bfs_out] a Inr by simp
      let ?all = "bfs_out @ pagerank_search lib g start_node goal_type 1
                @ shortest_path_search lib g start_node goal_type 1"
      obtain deduped out where d: "dedupe ?all {} [] = Inr deduped"
        and o: "reasoning_walk lib g [start_node] goal_type 1 = Inr out" "set out = set deduped"
        using reasoning_walk_one_start[OF st Inr, of lib] by blast
      have "set deduped \<subseteq> set ?all" using dedupe_subset[OF d] by simp
      then have "\<forall>r\<in>set out. map_of r ''node_id'' \<noteq> Some (Str goal)"
        using o(2) b pr sp by auto
      then show ?thesis using o(1) by blast
    qed
  qed
qed

theorem reasoning_walk_two_hops_witness:
  "targets_exist path_graph \<and> has_node path_graph ''start'' \<and>
   ''mid'' \<in> set (neighbors path_graph ''start'') \<and> ''goal'' \<in> set (neighbors path_graph ''mid'') \<and>
   ''goal'' \<notin> set (neighbors path_graph ''start'') \<and>
   is_goal_node path_graph ''document'' ''goal'' \<and> \<not> is_goal_node path_graph ''document'' ''start'' \<and>
   length (filter (\<lambda>nd. dict_get (snd nd) ''type'' (Str '''') = Str ''document'') (nodes path_graph)) = 1 \<and>
   lib_sound path_lib path_graph ''start'' ''goal'' \<and>
   (\<exists>out p. reasoning_walk path_lib path_graph [''start''] ''document'' 2 = Inr out \<and>
       bfs_result ''goal'' 2 p \<in> set out \<and> composite_score (bfs_result ''goal'' 2 p) = 1 / 3) \<and>
   (\<exists>out. reasoning_walk path_lib path_graph [''start''] ''document'' 1 = Inr out \<and>
       (\<forall>r\<in>set out. map_of r ''node_id'' \<noteq> Some (Str ''goal'')))"
proof -
  have h1: "targets_exist path_graph \<and> has_node path_graph ''start'' \<and>
   ''mid'' \<in> set (neighbors path_graph ''start'') \<and> ''goal'' \<in> set (neighbors path_graph ''mid'') \<and>
   ''goal'' \<notin> set (neighbors path_graph ''start'') \<and>
   is_goal_node path_graph ''document'' ''goal'' \<and> \<not> is_goal_node path_graph ''document'' ''start''"
    by (simp add: targets_exist_def has_node_def neighbors_def is_goal_node_def path_graph_def
          dict_get_def)
  have h2: "length (filter (\<lambda>nd. dict_get (snd nd) ''type'' (Str '''') = Str ''document'')
               (nodes path_graph)) = 1"
    by (simp add: path_graph_def dict_get_def)
  have h3: "lib_sound path_lib path_graph ''start'' ''goal'' \<and> ''goal'' \<noteq> ''start''"
    by (simp add: lib_sound_def path_lib_def path_graph_def neighbors_def numeral_2_eq_2)
  have h2': "length (filter (\<lambda>nd. dict_get (snd nd) ''type'' (Str []) = Str ''document'')
               (nodes path_graph)) \<le> 10"
    using h2 by simp
  note T = reasoning_walk_two_hops[of path_graph "''start''" "''mid''" "''goal''" "''document''" path_lib]
  have c1: "\<exists>out p. reasoning_walk path_lib path_graph [''start''] ''document'' 2 = Inr out \<and>
       bfs_result ''goal'' 2 p \<in> set out \<and> composite_score (bfs_result ''goal'' 2 p) = 1 / 3"
    using T h1 h2' by blast
  have c2: "\<exists>out. reasoning_walk path_lib path_graph [''start''] ''document'' 1 = Inr out \<and>
       (\<forall>r\<in>set out. map_of r ''node_id'' \<noteq> Some (Str ''goal''))"
    using T h1 h3 by blast
  show ?thesis
    using h1 h2 h3 c1 c2 by blast
qed









end
